theory Spec2Isabelle
  imports Main "HOL-Library.Word" "HOL-Library.Signed_Division"
begin

section \<open>Machine types and observable effects\<close>

text \<open>
  The pool is C++14 on an LP64 target (the README asks for gcc 6.1 or later):
  \<open>size_t\<close> and \<open>std::atomic<size_t>\<close> are 64-bit unsigned words whose \<open>++\<close>
  and \<open>--\<close> wrap, \<open>int\<close> is a 32-bit word read in two's complement.
  Isabelle names cannot end in an underscore, so a member \<open>name_\<close> of the source is
  the field \<open>name\<close> here.
\<close>

type_synonym size_t = "64 word"
type_synonym cint = "32 word"

text \<open>The usual arithmetic conversion of an \<open>int\<close> that meets a \<open>size_t\<close>: sign extension.\<close>

definition size_t_of_int :: "cint \<Rightarrow> size_t" where
  "size_t_of_int i = scast i"

text \<open>The narrowing initialisation \<open>int x = <size_t value>\<close>: the low 32 bits.\<close>

definition int_of_size_t :: "size_t \<Rightarrow> cint" where
  "int_of_size_t n = ucast n"

datatype PoolState = STATE_INIT | STATE_RUNNING | STATE_EXITING

datatype PoolMode = MODE_FIXED | MODE_CACHED | MODE_ACTIVE

datatype lockname = PubLock | PriLock

datatype condvar = NotFull | NotEmpty | AllExit

text \<open>
  What a call does besides changing the object: taking and releasing a spin lock,
  invoking a task, \<open>notify_all\<close> on a condition variable, \<open>sleep_for\<close> a number
  of seconds, a call of \<open>wait_for\<close> on a condition variable with a timeout in
  seconds, writing a line to \<open>std::cerr\<close>, launching a detached \<open>std::thread\<close>
  for the \<open>Thread\<close> object with the given id. Tasks are opaque values of type
  \<open>'a\<close>; every task is callable, as the wrappers built by \<open>ThreadPool::submitTask\<close>
  are. Taking the \<open>std::mutex\<close> of a pool is not recorded: a call runs from its
  start to its end, and other threads act only where a call waits, sleeps or runs a
  task.
\<close>

datatype 'a effect =
    Acquire lockname
  | Release lockname
  | Run 'a
  | NotifyAll condvar
  | SleepFor nat
  | WaitFor condvar nat
  | Cerr string
  | ThreadStart int

section \<open>util.h: spinlock\<close>

text \<open>
  \<open>lock()\<close> is \<open>while (flag.test_and_set()) ;\<close>. The argument is the flag before the
  call and the result the flag after it. No other thread runs inside one modelled call,
  so a lock that is already held is never released and the loop does not return: the
  value is \<open>None\<close>.
\<close>

partial_function (option) spinlock_lock :: "bool \<Rightarrow> bool option" where
  "spinlock_lock flag = (if flag then spinlock_lock True else Some True)"

definition spinlock_unlock :: "bool \<Rightarrow> bool" where
  "spinlock_unlock flag = False"

text \<open>\<open>try_lock()\<close> returns \<open>!flag.test_and_set()\<close>; the pair is (result, flag after).\<close>

definition spinlock_try_lock :: "bool \<Rightarrow> bool \<times> bool" where
  "spinlock_try_lock flag = (\<not> flag, True)"

section \<open>activepool.h: ThreadWithDQ\<close>

text \<open>\<open>publicQ_\<close> and \<open>privateQ_\<close> point at one of the two member queues.\<close>

datatype qname = Q1 | Q2

record 'a ThreadWithDQ =
  threadId :: int
  publicTaskCount :: size_t
  privateTaskCount :: size_t
  publicQ :: qname
  privateQ :: qname
  TaskQ1 :: "'a list"
  TaskQ2 :: "'a list"
  pubLock :: bool
  priLock :: bool

text \<open>The constructor; \<open>tid\<close> is the value \<open>threadIdBase++\<close> of the base class.\<close>

definition ThreadWithDQ_ctor :: "int \<Rightarrow> 'a ThreadWithDQ" where
  "ThreadWithDQ_ctor tid =
     \<lparr> threadId = tid, publicTaskCount = 0, privateTaskCount = 0,
       publicQ = Q1, privateQ = Q2, TaskQ1 = [], TaskQ2 = [],
       pubLock = False, priLock = False \<rparr>"

fun deref :: "qname \<Rightarrow> 'a ThreadWithDQ \<Rightarrow> 'a list" where
  "deref Q1 s = TaskQ1 s"
| "deref Q2 s = TaskQ2 s"

fun assign :: "qname \<Rightarrow> 'a list \<Rightarrow> 'a ThreadWithDQ \<Rightarrow> 'a ThreadWithDQ" where
  "assign Q1 q s = s\<lparr>TaskQ1 := q\<rparr>"
| "assign Q2 q s = s\<lparr>TaskQ2 := q\<rparr>"

definition getTaskCount :: "'a ThreadWithDQ \<Rightarrow> size_t" where
  "getTaskCount s = publicTaskCount s + privateTaskCount s"

definition getPublicTaskCount :: "'a ThreadWithDQ \<Rightarrow> size_t" where
  "getPublicTaskCount s = publicTaskCount s"

text \<open>\<open>setTaskMaxCount\<close> of the worker has an empty body (\<open>// TODO\<close>).\<close>

definition ThreadWithDQ_setTaskMaxCount :: "size_t \<Rightarrow> 'a ThreadWithDQ \<Rightarrow> 'a ThreadWithDQ" where
  "ThreadWithDQ_setTaskMaxCount maxCount s = s"

definition giveTask :: "'a \<Rightarrow> 'a ThreadWithDQ \<Rightarrow> ('a ThreadWithDQ \<times> 'a effect list) option" where
  "giveTask task s =
     (case spinlock_lock (pubLock s) of
        None \<Rightarrow> None
      | Some held \<Rightarrow>
          let s1 = s\<lparr>pubLock := held\<rparr>;
              s2 = assign (publicQ s1) (deref (publicQ s1) s1 @ [task]) s1;
              s3 = s2\<lparr>publicTaskCount := publicTaskCount s2 + 1\<rparr>
          in Some (s3\<lparr>pubLock := spinlock_unlock (pubLock s3)\<rparr>,
                   [Acquire PubLock, Release PubLock]))"

text \<open>
  \<open>swapQ\<close>: both guards (public first), the pointers swapped, the counters exchanged;
  the guards are destroyed in reverse order.
\<close>

definition swapQ :: "'a ThreadWithDQ \<Rightarrow> ('a ThreadWithDQ \<times> 'a effect list) option" where
  "swapQ s =
     (case spinlock_lock (pubLock s) of
        None \<Rightarrow> None
      | Some held1 \<Rightarrow>
          let s1 = s\<lparr>pubLock := held1\<rparr> in
          (case spinlock_lock (priLock s1) of
             None \<Rightarrow> None
           | Some held2 \<Rightarrow>
               let s2 = s1\<lparr>priLock := held2\<rparr>;
                   s3 = s2\<lparr>publicQ := privateQ s2, privateQ := publicQ s2\<rparr>;
                   tmp = publicTaskCount s3;
                   s4 = s3\<lparr>publicTaskCount := privateTaskCount s3\<rparr>;
                   s5 = s4\<lparr>privateTaskCount := tmp\<rparr>;
                   s6 = s5\<lparr>priLock := spinlock_unlock (priLock s5)\<rparr>
               in Some (s6\<lparr>pubLock := spinlock_unlock (pubLock s6)\<rparr>,
                        [Acquire PubLock, Acquire PriLock, Release PriLock, Release PubLock])))"

text \<open>\<open>trySwapQ\<close> returns 1 (swapped), -1 (both sides empty) or 0 (private side not consumed).\<close>

definition trySwapQ :: "'a ThreadWithDQ \<Rightarrow> (int \<times> 'a ThreadWithDQ \<times> 'a effect list) option" where
  "trySwapQ s =
     (if privateTaskCount s = 0 then
        (if publicTaskCount s \<noteq> 0 then
           (case swapQ s of None \<Rightarrow> None | Some (s', es) \<Rightarrow> Some (1, s', es))
         else Some (-1, s, []))
      else Some (0, s, []))"

text \<open>The loop of \<open>consumeTasks\<close>: call the front task, pop it, until the queue is empty.\<close>

fun consume_loop :: "'a list \<Rightarrow> 'a effect list \<Rightarrow> 'a list \<times> 'a effect list" where
  "consume_loop [] es = ([], es)"
| "consume_loop (t # q) es = consume_loop q (es @ [Run t])"

definition consumeTasks :: "'a ThreadWithDQ \<Rightarrow> ('a ThreadWithDQ \<times> 'a effect list) option" where
  "consumeTasks s =
     (case spinlock_lock (priLock s) of
        None \<Rightarrow> None
      | Some held \<Rightarrow>
          let s1 = s\<lparr>priLock := held\<rparr>;
              (q, es) = consume_loop (deref (privateQ s1) s1) [Acquire PriLock];
              s2 = assign (privateQ s1) q s1;
              s3 = s2\<lparr>privateTaskCount := 0\<rparr>
          in Some (s3\<lparr>priLock := spinlock_unlock (priLock s3)\<rparr>, es @ [Release PriLock]))"

subsection \<open>Sequences of calls on one worker\<close>

datatype 'a dq_call = Give 'a | TrySwap | Consume

fun do_call :: "'a dq_call \<Rightarrow> 'a ThreadWithDQ \<Rightarrow> ('a ThreadWithDQ \<times> 'a effect list) option" where
  "do_call (Give t) s = giveTask t s"
| "do_call TrySwap s = (case trySwapQ s of None \<Rightarrow> None | Some (r, s', es) \<Rightarrow> Some (s', es))"
| "do_call Consume s = consumeTasks s"

fun do_calls :: "'a dq_call list \<Rightarrow> 'a ThreadWithDQ \<Rightarrow> ('a ThreadWithDQ \<times> 'a effect list) option" where
  "do_calls [] s = Some (s, [])"
| "do_calls (c # cs) s =
     (case do_call c s of
        None \<Rightarrow> None
      | Some (s1, es1) \<Rightarrow>
          (case do_calls cs s1 of None \<Rightarrow> None | Some (s2, es2) \<Rightarrow> Some (s2, es1 @ es2)))"

fun is_Give :: "'a dq_call \<Rightarrow> bool" where
  "is_Give (Give t) = True"
| "is_Give c = False"

fun is_Run :: "'a effect \<Rightarrow> bool" where
  "is_Run (Run t) = True"
| "is_Run e = False"

definition given :: "'a dq_call list \<Rightarrow> nat" where
  "given cs = length (filter is_Give cs)"

definition executed :: "'a effect list \<Rightarrow> nat" where
  "executed es = length (filter is_Run es)"

text \<open>The counters mirror the queues they describe, the roles differ, no lock is held.\<close>

definition dq_inv :: "'a ThreadWithDQ \<Rightarrow> bool" where
  "dq_inv s \<longleftrightarrow>
     publicTaskCount s = of_nat (length (deref (publicQ s) s)) \<and>
     privateTaskCount s = of_nat (length (deref (privateQ s) s)) \<and>
     publicQ s \<noteq> privateQ s \<and> \<not> pubLock s \<and> \<not> priLock s"

definition stored :: "'a ThreadWithDQ \<Rightarrow> nat" where
  "stored s = length (TaskQ1 s) + length (TaskQ2 s)"

section \<open>basicthread.h and basepool.h\<close>

text \<open>
  What a call of the pool can end in: a normal return, a thrown \<open>char const*\<close>,
  undefined behaviour (an index past the end of a vector, a null \<open>unique_ptr\<close>,
  \<open>front()\<close> of an empty queue, signed overflow of a loop counter), or a spin lock
  that is never released. Every call also yields the object as it leaves it and the
  effects it had up to that point.
\<close>

datatype 'r outcome = Return 'r | Throw string | Undefined | Hangs

text \<open>
  \<open>BasePool\<close> holds the atomic state. \<open>Thread::threadIdBase\<close> is a static of the
  process that every \<open>Thread\<close> constructor reads and increments; it is carried in the
  same record so that a call is a function of one state.
\<close>

record BasePool =
  state :: PoolState
  threadIdBase :: int

definition checkSetPermission :: "'z BasePool_scheme \<Rightarrow> bool" where
  "checkSetPermission p \<longleftrightarrow> state p = STATE_INIT"

text \<open>The three virtual setters of \<open>BasePool\<close> only write a line.\<close>

definition BasePool_setTaskMaxCount ::
  "size_t \<Rightarrow> 'z BasePool_scheme \<Rightarrow> 'z BasePool_scheme \<times> 'a effect list" where
  "BasePool_setTaskMaxCount maxCount p = (p, [Cerr ''setTaskMaxCount(): Unsupported operation!''])"

definition BasePool_setThreadMaxCount ::
  "size_t \<Rightarrow> 'z BasePool_scheme \<Rightarrow> 'z BasePool_scheme \<times> 'a effect list" where
  "BasePool_setThreadMaxCount maxCount p = (p, [Cerr ''setThreadMaxCount(): Unsupported operation!''])"

definition BasePool_setThreadIdleTimeout ::
  "size_t \<Rightarrow> 'z BasePool_scheme \<Rightarrow> 'z BasePool_scheme \<times> 'a effect list" where
  "BasePool_setThreadIdleTimeout t p = (p, [Cerr ''setThreadIdleTimeout(): Unsupported operation!''])"

definition refused :: "'a effect list" where
  "refused = [Cerr ''CANNOT call set-function now! Nothing changed.'']"

text \<open>
  The loop \<open>for (int i = 0; i < initThreadCount_; i++)\<close> compares the \<open>int\<close> counter
  with a \<open>size_t\<close>. It makes \<open>initThreadCount_\<close> objects when that many fit an
  \<open>int\<close>; otherwise the counter overflows. The result lists the ids handed out,
  starting at \<open>base\<close>.
\<close>

fun fresh_ids :: "nat \<Rightarrow> int \<Rightarrow> int list" where
  "fresh_ids 0 base = []"
| "fresh_ids (Suc n) base = base # fresh_ids n (base + 1)"

definition create_loop :: "size_t \<Rightarrow> int \<Rightarrow> int list option" where
  "create_loop bound base =
     (if unat bound \<le> 2 ^ 31 - 1 then Some (fresh_ids (unat bound) base) else None)"

text \<open>
  \<open>cv.wait_for(lock, 1s, pred)\<close> is
  \<open>while (!pred()) if (wait_until(lock, t) == timeout) return pred(); return true;\<close>.
  Each element of \<open>ws\<close> is what the other threads do to the pool during one wait,
  while the mutex is released; the last one ends with the second elapsed. An empty list
  is a wait that times out with the pool untouched.
\<close>

fun wait_for_pred :: "('s \<Rightarrow> bool) \<Rightarrow> ('s \<Rightarrow> 's) list \<Rightarrow> 's \<Rightarrow> bool \<times> 's" where
  "wait_for_pred pred [] s = (pred s, s)"
| "wait_for_pred pred (w # ws) s = (if pred s then (True, s) else wait_for_pred pred ws (w s))"

section \<open>fixedpool.h: FixedPool\<close>

text \<open>
  \<open>threads_\<close> is an \<open>unordered_map\<close> from id to \<open>Thread\<close>; its key set is kept.
  Its iteration order is unspecified: \<open>start\<close> lists the launches by increasing id.
  The \<open>DEFAULT_\<close> constants are \<open>int\<close>s of the class; they are given as the
  \<open>size_t\<close> values the members receive.
\<close>

record 'a FixedPool = BasePool +
  initThreadCount :: size_t
  idleThreadCount :: size_t
  curThreadCount :: size_t
  threads :: "int set"
  taskMaxCount :: size_t
  taskCount :: size_t
  taskQueue :: "'a list"

definition FixedPool_DEFAULT_TASK_MAX_COUNT :: size_t where
  "FixedPool_DEFAULT_TASK_MAX_COUNT = 1000001"

definition FixedPool_ctor :: "int \<Rightarrow> 'a FixedPool" where
  "FixedPool_ctor base =
     \<lparr> state = STATE_INIT, threadIdBase = base,
       FixedPool.initThreadCount = 4, FixedPool.idleThreadCount = 0,
       FixedPool.curThreadCount = 0, FixedPool.threads = {},
       FixedPool.taskMaxCount = FixedPool_DEFAULT_TASK_MAX_COUNT,
       FixedPool.taskCount = 0, FixedPool.taskQueue = [] \<rparr>"

definition FixedPool_setTaskMaxCount ::
  "size_t \<Rightarrow> 'a FixedPool \<Rightarrow> 'a FixedPool \<times> 'a effect list" where
  "FixedPool_setTaskMaxCount maxCount p =
     (if \<not> checkSetPermission p then (p, refused)
      else (p\<lparr>FixedPool.taskMaxCount := maxCount\<rparr>, []))"

definition FixedPool_start ::
  "cint \<Rightarrow> 'a FixedPool \<Rightarrow> unit outcome \<times> 'a FixedPool \<times> 'a effect list" where
  "FixedPool_start initThreadCount' p =
     (let p1 = p\<lparr>state := STATE_RUNNING\<rparr>;
          p2 = p1\<lparr>FixedPool.initThreadCount := size_t_of_int initThreadCount'\<rparr>
      in case create_loop (FixedPool.initThreadCount p2) (threadIdBase p2) of
           None \<Rightarrow> (Undefined, p2, [])
         | Some ids \<Rightarrow>
             let p3 = p2\<lparr>FixedPool.threads := FixedPool.threads p2 \<union> set ids,
                         threadIdBase := threadIdBase p2 + int (length ids)\<rparr>;
                 es = map ThreadStart (sorted_list_of_set (FixedPool.threads p3));
                 p4 = p3\<lparr>FixedPool.curThreadCount := size_t_of_int initThreadCount'\<rparr>;
                 p5 = p4\<lparr>FixedPool.idleThreadCount := size_t_of_int initThreadCount'\<rparr>
             in (Return (), p5, es))"

text \<open>The predicate of the wait in \<open>submitTask\<close>: \<open>taskQueue_.size() < taskMaxCount_\<close>.\<close>

definition fixed_has_room :: "'a FixedPool \<Rightarrow> bool" where
  "fixed_has_room q \<longleftrightarrow> of_nat (length (FixedPool.taskQueue q)) < FixedPool.taskMaxCount q"

definition FixedPool_submitTask ::
  "('a FixedPool \<Rightarrow> 'a FixedPool) list \<Rightarrow> 'a \<Rightarrow> 'a FixedPool \<Rightarrow>
     unit outcome \<times> 'a FixedPool \<times> 'a effect list" where
  "FixedPool_submitTask ws task p =
     (if state p \<noteq> STATE_RUNNING then (Throw ''PoolNotRunning'', p, [])
      else
        let (waitSuccess, p1) =
              wait_for_pred fixed_has_room ws p
        in if \<not> waitSuccess then (Throw ''TaskQueueOverflow'', p1, [WaitFor NotFull 1])
           else
             let p2 = p1\<lparr>FixedPool.taskQueue := FixedPool.taskQueue p1 @ [task]\<rparr>;
                 p3 = p2\<lparr>FixedPool.taskCount := FixedPool.taskCount p2 + 1\<rparr>
             in (Return (), p3, [WaitFor NotFull 1, NotifyAll NotEmpty]))"

text \<open>The destructor up to its wait on \<open>allExit_\<close>.\<close>

definition FixedPool_dtor_enter :: "'a FixedPool \<Rightarrow> 'a FixedPool \<times> 'a effect list" where
  "FixedPool_dtor_enter p = (p\<lparr>state := STATE_EXITING\<rparr>, [NotifyAll NotEmpty])"

section \<open>The cached pool (CACHEDPOOL_H)\<close>

record 'a CachedPool = BasePool +
  initThreadCount :: size_t
  maxThreadCount :: size_t
  threadMaxIdleSec :: size_t
  idleThreadCount :: size_t
  curThreadCount :: size_t
  threads :: "int set"
  taskMaxCount :: size_t
  taskCount :: size_t
  taskQueue :: "'a list"

definition CachedPool_DEFAULT_TASK_MAX_COUNT :: size_t where
  "CachedPool_DEFAULT_TASK_MAX_COUNT = 1000001"

definition CachedPool_DEFAULT_THREAD_MAX_COUNT :: size_t where
  "CachedPool_DEFAULT_THREAD_MAX_COUNT = 16"

definition CachedPool_DEFAULT_MAX_IDLE_SEC :: size_t where
  "CachedPool_DEFAULT_MAX_IDLE_SEC = 30"

definition CachedPool_ctor :: "int \<Rightarrow> 'a CachedPool" where
  "CachedPool_ctor base =
     \<lparr> state = STATE_INIT, threadIdBase = base,
       CachedPool.initThreadCount = 4,
       CachedPool.maxThreadCount = CachedPool_DEFAULT_THREAD_MAX_COUNT,
       CachedPool.threadMaxIdleSec = CachedPool_DEFAULT_MAX_IDLE_SEC,
       CachedPool.idleThreadCount = 0, CachedPool.curThreadCount = 0,
       CachedPool.threads = {},
       CachedPool.taskMaxCount = CachedPool_DEFAULT_TASK_MAX_COUNT,
       CachedPool.taskCount = 0, CachedPool.taskQueue = [] \<rparr>"

definition CachedPool_setTaskMaxCount ::
  "size_t \<Rightarrow> 'a CachedPool \<Rightarrow> 'a CachedPool \<times> 'a effect list" where
  "CachedPool_setTaskMaxCount maxCount p =
     (if \<not> checkSetPermission p then (p, refused)
      else (p\<lparr>CachedPool.taskMaxCount := maxCount\<rparr>, []))"

definition CachedPool_setThreadMaxCount ::
  "size_t \<Rightarrow> 'a CachedPool \<Rightarrow> 'a CachedPool \<times> 'a effect list" where
  "CachedPool_setThreadMaxCount maxCount p =
     (if \<not> checkSetPermission p then (p, refused)
      else (p\<lparr>CachedPool.maxThreadCount := maxCount\<rparr>, []))"

definition CachedPool_setThreadIdleTimeout ::
  "size_t \<Rightarrow> 'a CachedPool \<Rightarrow> 'a CachedPool \<times> 'a effect list" where
  "CachedPool_setThreadIdleTimeout t p =
     (if \<not> checkSetPermission p then (p, refused)
      else (p\<lparr>CachedPool.threadMaxIdleSec := t\<rparr>, []))"

text \<open>
  \<open>start\<close>: the member \<open>initThreadCount_\<close> takes the smaller of the argument (as a
  \<open>size_t\<close>) and \<open>maxThreadCount_\<close>; the two counters take the argument itself.
\<close>

definition CachedPool_start ::
  "cint \<Rightarrow> 'a CachedPool \<Rightarrow> unit outcome \<times> 'a CachedPool \<times> 'a effect list" where
  "CachedPool_start initThreadCount' p =
     (let p1 = p\<lparr>state := STATE_RUNNING\<rparr>;
          p2 = p1\<lparr>CachedPool.initThreadCount :=
                    (if CachedPool.maxThreadCount p1 < size_t_of_int initThreadCount'
                     then CachedPool.maxThreadCount p1
                     else size_t_of_int initThreadCount')\<rparr>
      in case create_loop (CachedPool.initThreadCount p2) (threadIdBase p2) of
           None \<Rightarrow> (Undefined, p2, [])
         | Some ids \<Rightarrow>
             let p3 = p2\<lparr>CachedPool.threads := CachedPool.threads p2 \<union> set ids,
                         threadIdBase := threadIdBase p2 + int (length ids)\<rparr>;
                 es = map ThreadStart (sorted_list_of_set (CachedPool.threads p3));
                 p4 = p3\<lparr>CachedPool.curThreadCount := size_t_of_int initThreadCount'\<rparr>;
                 p5 = p4\<lparr>CachedPool.idleThreadCount := size_t_of_int initThreadCount'\<rparr>
             in (Return (), p5, es))"

text \<open>The tail of \<open>submitTask\<close>: one more thread when tasks outnumber idle threads.\<close>

definition spawn_if_needed :: "'a CachedPool \<Rightarrow> 'a CachedPool \<times> 'a effect list" where
  "spawn_if_needed p =
     (if CachedPool.idleThreadCount p < CachedPool.taskCount p \<and>
         CachedPool.curThreadCount p < CachedPool.maxThreadCount p
      then
        let newThreadId = threadIdBase p;
            p1 = p\<lparr>threadIdBase := threadIdBase p + 1\<rparr>;
            p2 = p1\<lparr>CachedPool.threads := insert newThreadId (CachedPool.threads p1)\<rparr>;
            p3 = p2\<lparr>CachedPool.curThreadCount := CachedPool.curThreadCount p2 + 1\<rparr>;
            p4 = p3\<lparr>CachedPool.idleThreadCount := CachedPool.idleThreadCount p3 + 1\<rparr>
        in (p4, [ThreadStart newThreadId])
      else (p, []))"

definition cached_has_room :: "'a CachedPool \<Rightarrow> bool" where
  "cached_has_room q \<longleftrightarrow> of_nat (length (CachedPool.taskQueue q)) < CachedPool.taskMaxCount q"

definition CachedPool_submitTask ::
  "('a CachedPool \<Rightarrow> 'a CachedPool) list \<Rightarrow> 'a \<Rightarrow> 'a CachedPool \<Rightarrow>
     unit outcome \<times> 'a CachedPool \<times> 'a effect list" where
  "CachedPool_submitTask ws task p =
     (if state p \<noteq> STATE_RUNNING then (Throw ''PoolNotRunning'', p, [])
      else
        let (waitSuccess, p1) =
              wait_for_pred cached_has_room ws p
        in if \<not> waitSuccess then (Throw ''TaskQueueOverflow'', p1, [WaitFor NotFull 1])
           else
             let p2 = p1\<lparr>CachedPool.taskQueue := CachedPool.taskQueue p1 @ [task]\<rparr>;
                 p3 = p2\<lparr>CachedPool.taskCount := CachedPool.taskCount p2 + 1\<rparr>;
                 (p4, es) = spawn_if_needed p3
             in (Return (), p4, [WaitFor NotFull 1, NotifyAll NotEmpty] @ es))"

definition CachedPool_dtor_enter :: "'a CachedPool \<Rightarrow> 'a CachedPool \<times> 'a effect list" where
  "CachedPool_dtor_enter p = (p\<lparr>state := STATE_EXITING\<rparr>, [NotifyAll NotEmpty])"

subsection \<open>The worker loop of the cached pool\<close>




datatype cv_status = no_timeout | timeout








section \<open>activepool.h: ActivePool\<close>

text \<open>
  \<open>threads_\<close> is a vector of \<open>unique_ptr\<close>; \<open>None\<close> is the null pointer a worker
  leaves behind when it exits. \<open>ThreadWithDQ::taskMaxCount_\<close> is a static shared by
  all workers, initialised to \<open>DEFAULT_TASK_MAX_COUNT\<close> and carried with the pool.
\<close>

record 'a ActivePool = BasePool +
  initThreadCount :: size_t
  curThreadCount :: size_t
  threads :: "'a ThreadWithDQ option list"
  taskMaxCount :: size_t

definition ThreadWithDQ_DEFAULT_TASK_MAX_COUNT :: size_t where
  "ThreadWithDQ_DEFAULT_TASK_MAX_COUNT = 500001"

definition ActivePool_ctor :: "int \<Rightarrow> 'a ActivePool" where
  "ActivePool_ctor base =
     \<lparr> state = STATE_INIT, threadIdBase = base,
       ActivePool.initThreadCount = 4, ActivePool.curThreadCount = 0,
       ActivePool.threads = [],
       ActivePool.taskMaxCount = ThreadWithDQ_DEFAULT_TASK_MAX_COUNT \<rparr>"

text \<open>\<open>ActivePool::setTaskMaxCount\<close> overrides the base method with an empty body (\<open>// TODO\<close>).\<close>

definition ActivePool_setTaskMaxCount ::
  "size_t \<Rightarrow> 'a ActivePool \<Rightarrow> 'a ActivePool \<times> 'a effect list" where
  "ActivePool_setTaskMaxCount maxCount p = (p, [])"

definition getTaskMaxCount :: "'a ActivePool \<Rightarrow> size_t" where
  "getTaskMaxCount p = ActivePool.taskMaxCount p"

text \<open>\<open>th->start()\<close> for every element of the vector.\<close>

fun start_all :: "'a ThreadWithDQ option list \<Rightarrow> 'a effect list option" where
  "start_all [] = Some []"
| "start_all (None # ths) = None"
| "start_all (Some w # ths) =
     (case start_all ths of None \<Rightarrow> None | Some es \<Rightarrow> Some (ThreadStart (threadId w) # es))"

definition ActivePool_start ::
  "cint \<Rightarrow> 'a ActivePool \<Rightarrow> unit outcome \<times> 'a ActivePool \<times> 'a effect list" where
  "ActivePool_start initThreadCount' p =
     (let p1 = p\<lparr>ActivePool.initThreadCount := size_t_of_int initThreadCount'\<rparr>
      in case create_loop (ActivePool.initThreadCount p1) (threadIdBase p1) of
           None \<Rightarrow> (Undefined, p1, [])
         | Some ids \<Rightarrow>
             let p2 = p1\<lparr>ActivePool.threads :=
                           ActivePool.threads p1 @ map (\<lambda>i. Some (ThreadWithDQ_ctor i)) ids,
                         threadIdBase := threadIdBase p1 + int (length ids)\<rparr>
             in (case start_all (ActivePool.threads p2) of
                   None \<Rightarrow> (Undefined, p2, [])
                 | Some es \<Rightarrow>
                     let p3 = p2\<lparr>ActivePool.curThreadCount := size_t_of_int initThreadCount'\<rparr>;
                         p4 = p3\<lparr>state := STATE_RUNNING\<rparr>
                     in (Return (), p4, es)))"

text \<open>\<open>threads_[i]-> ...\<close>: defined only for an index inside the vector and a pointer that is not null.\<close>

definition worker_at :: "'a ThreadWithDQ option list \<Rightarrow> nat \<Rightarrow> 'a ThreadWithDQ option" where
  "worker_at ths i = (if i < length ths then ths ! i else None)"

text \<open>
  The scan of \<open>trySubmitTask\<close> over the indices \<open>1 \<le> i < curThreadCount_\<close>.
  \<open>minTaskCount\<close> is an \<open>int\<close>: it is widened for \<open>count < minTaskCount\<close> and
  \<open>count\<close> is narrowed when it is stored.
\<close>

fun scan_loop ::
  "'a ThreadWithDQ option list \<Rightarrow> nat list \<Rightarrow> nat \<Rightarrow> cint \<Rightarrow> (nat \<times> cint) option" where
  "scan_loop ths [] leastBusyTid minTaskCount = Some (leastBusyTid, minTaskCount)"
| "scan_loop ths (i # rest) leastBusyTid minTaskCount =
     (case worker_at ths i of
        None \<Rightarrow> None
      | Some w \<Rightarrow>
          let count = getPublicTaskCount w in
          if count < size_t_of_int minTaskCount
          then scan_loop ths rest i (int_of_size_t count)
          else scan_loop ths rest leastBusyTid minTaskCount)"

definition trySubmitTask ::
  "'a \<Rightarrow> 'a ActivePool \<Rightarrow> bool outcome \<times> 'a ActivePool \<times> 'a effect list" where
  "trySubmitTask task p =
     (case worker_at (ActivePool.threads p) 0 of
        None \<Rightarrow> (Undefined, p, [])
      | Some w0 \<Rightarrow>
          (case scan_loop (ActivePool.threads p) [1 ..< unat (ActivePool.curThreadCount p)]
                  0 (int_of_size_t (getPublicTaskCount w0)) of
             None \<Rightarrow> (Undefined, p, [])
           | Some (leastBusyTid, minTaskCount) \<Rightarrow>
               if size_t_of_int minTaskCount = getTaskMaxCount p then (Return False, p, [])
               else
                 (case worker_at (ActivePool.threads p) leastBusyTid of
                    None \<Rightarrow> (Undefined, p, [])
                  | Some w \<Rightarrow>
                      (case giveTask task w of
                         None \<Rightarrow> (Hangs, p, [])
                       | Some (w', es) \<Rightarrow>
                           (Return True,
                            p\<lparr>ActivePool.threads :=
                                 (ActivePool.threads p)[leastBusyTid := Some w']\<rparr>,
                            es)))))"

text \<open>
  \<open>submitTask\<close>; \<open>during_sleep\<close> is what the workers and the other submitters do to
  the pool during \<open>sleep_for(seconds(1))\<close>.
\<close>

definition ActivePool_submitTask ::
  "('a ActivePool \<Rightarrow> 'a ActivePool) \<Rightarrow> 'a \<Rightarrow> 'a ActivePool \<Rightarrow>
     unit outcome \<times> 'a ActivePool \<times> 'a effect list" where
  "ActivePool_submitTask during_sleep task p =
     (case trySubmitTask task p of
        (Return True, p1, es1) \<Rightarrow> (Return (), p1, es1 @ [NotifyAll NotEmpty])
      | (Return False, p1, es1) \<Rightarrow>
          let p2 = during_sleep p1;
              es2 = es1 @ [SleepFor 1, Cerr ''ThreadPool is busy, waiting for 1 second...'']
          in (case trySubmitTask task p2 of
                (Return True, p3, es3) \<Rightarrow> (Return (), p3, es2 @ es3 @ [NotifyAll NotEmpty])
              | (Return False, p3, es3) \<Rightarrow> (Throw ''TaskQueueOverflow'', p3, es2 @ es3)
              | (Throw m, p3, es3) \<Rightarrow> (Throw m, p3, es2 @ es3)
              | (Undefined, p3, es3) \<Rightarrow> (Undefined, p3, es2 @ es3)
              | (Hangs, p3, es3) \<Rightarrow> (Hangs, p3, es2 @ es3))
      | (Throw m, p1, es1) \<Rightarrow> (Throw m, p1, es1)
      | (Undefined, p1, es1) \<Rightarrow> (Undefined, p1, es1)
      | (Hangs, p1, es1) \<Rightarrow> (Hangs, p1, es1))"

definition ActivePool_dtor_enter :: "'a ActivePool \<Rightarrow> 'a ActivePool \<times> 'a effect list" where
  "ActivePool_dtor_enter p = (p\<lparr>state := STATE_EXITING\<rparr>, [NotifyAll NotEmpty])"

section \<open>threadpool.h: the ThreadPool front\<close>

datatype 'a ThreadPool = Fixed "'a FixedPool" | Cached "'a CachedPool" | Active "'a ActivePool"

definition ThreadPool_ctor :: "PoolMode \<Rightarrow> int \<Rightarrow> 'a ThreadPool" where
  "ThreadPool_ctor mode base =
     (case mode of
        MODE_FIXED \<Rightarrow> Fixed (FixedPool_ctor base)
      | MODE_CACHED \<Rightarrow> Cached (CachedPool_ctor base)
      | MODE_ACTIVE \<Rightarrow> Active (ActivePool_ctor base))"

fun pool_state :: "'a ThreadPool \<Rightarrow> PoolState" where
  "pool_state (Fixed p) = state p"
| "pool_state (Cached p) = state p"
| "pool_state (Active p) = state p"

text \<open>The capacity a later \<open>submitTask\<close> compares against.\<close>

fun pool_taskMaxCount :: "'a ThreadPool \<Rightarrow> size_t" where
  "pool_taskMaxCount (Fixed p) = FixedPool.taskMaxCount p"
| "pool_taskMaxCount (Cached p) = CachedPool.taskMaxCount p"
| "pool_taskMaxCount (Active p) = getTaskMaxCount p"

fun setTaskMaxCount :: "size_t \<Rightarrow> 'a ThreadPool \<Rightarrow> 'a ThreadPool \<times> 'a effect list" where
  "setTaskMaxCount maxCount (Fixed p) =
     (case FixedPool_setTaskMaxCount maxCount p of (p', es) \<Rightarrow> (Fixed p', es))"
| "setTaskMaxCount maxCount (Cached p) =
     (case CachedPool_setTaskMaxCount maxCount p of (p', es) \<Rightarrow> (Cached p', es))"
| "setTaskMaxCount maxCount (Active p) =
     (case ActivePool_setTaskMaxCount maxCount p of (p', es) \<Rightarrow> (Active p', es))"

fun setThreadMaxCount :: "size_t \<Rightarrow> 'a ThreadPool \<Rightarrow> 'a ThreadPool \<times> 'a effect list" where
  "setThreadMaxCount maxCount (Fixed p) =
     (case BasePool_setThreadMaxCount maxCount p of (p', es) \<Rightarrow> (Fixed p', es))"
| "setThreadMaxCount maxCount (Cached p) =
     (case CachedPool_setThreadMaxCount maxCount p of (p', es) \<Rightarrow> (Cached p', es))"
| "setThreadMaxCount maxCount (Active p) =
     (case BasePool_setThreadMaxCount maxCount p of (p', es) \<Rightarrow> (Active p', es))"

fun setThreadIdleTimeout :: "size_t \<Rightarrow> 'a ThreadPool \<Rightarrow> 'a ThreadPool \<times> 'a effect list" where
  "setThreadIdleTimeout t (Fixed p) =
     (case BasePool_setThreadIdleTimeout t p of (p', es) \<Rightarrow> (Fixed p', es))"
| "setThreadIdleTimeout t (Cached p) =
     (case CachedPool_setThreadIdleTimeout t p of (p', es) \<Rightarrow> (Cached p', es))"
| "setThreadIdleTimeout t (Active p) =
     (case BasePool_setThreadIdleTimeout t p of (p', es) \<Rightarrow> (Active p', es))"

fun start :: "cint \<Rightarrow> 'a ThreadPool \<Rightarrow> unit outcome \<times> 'a ThreadPool \<times> 'a effect list" where
  "start n (Fixed p) = (case FixedPool_start n p of (r, p', es) \<Rightarrow> (r, Fixed p', es))"
| "start n (Cached p) = (case CachedPool_start n p of (r, p', es) \<Rightarrow> (r, Cached p', es))"
| "start n (Active p) = (case ActivePool_start n p of (r, p', es) \<Rightarrow> (r, Active p', es))"

text \<open>
  What the other threads do while one \<open>submitTask\<close> runs: the waits on \<open>notFull_\<close>
  of the fixed and the cached pool, the sleep of the active pool.
\<close>

record 'a interference =
  fixed_waits :: "('a FixedPool \<Rightarrow> 'a FixedPool) list"
  cached_waits :: "('a CachedPool \<Rightarrow> 'a CachedPool) list"
  active_sleep :: "'a ActivePool \<Rightarrow> 'a ActivePool"

definition quiet :: "'a interference" where
  "quiet = \<lparr> fixed_waits = [], cached_waits = [], active_sleep = (\<lambda>p. p) \<rparr>"

fun pool_submitTask ::
  "'a interference \<Rightarrow> 'a \<Rightarrow> 'a ThreadPool \<Rightarrow> unit outcome \<times> 'a ThreadPool \<times> 'a effect list" where
  "pool_submitTask env task (Fixed p) =
     (case FixedPool_submitTask (fixed_waits env) task p of (r, p', es) \<Rightarrow> (r, Fixed p', es))"
| "pool_submitTask env task (Cached p) =
     (case CachedPool_submitTask (cached_waits env) task p of (r, p', es) \<Rightarrow> (r, Cached p', es))"
| "pool_submitTask env task (Active p) =
     (case ActivePool_submitTask (active_sleep env) task p of (r, p', es) \<Rightarrow> (r, Active p', es))"

text \<open>
  The result handle: the future of the packaged task handed to the pool, fulfilled
  when a worker runs that task, or a future that already holds a value.
\<close>

datatype ('a, 'r) future = Pending 'a | Ready 'r

text \<open>
  \<open>ThreadPool::submitTask\<close>. \<open>task\<close> stands for the wrapper around the packaged
  task, \<open>dflt\<close> for the value \<open>RType()\<close>. A thrown string is caught: the two known
  messages are written to \<open>std::cerr\<close>, and the caller gets the future of an empty
  task that has already run.
\<close>

definition submitTask ::
  "'r \<Rightarrow> 'a interference \<Rightarrow> 'a \<Rightarrow> 'a ThreadPool \<Rightarrow>
     ('a, 'r) future outcome \<times> 'a ThreadPool \<times> 'a effect list" where
  "submitTask dflt env task tp =
     (case pool_submitTask env task tp of
        (Return u, tp', es) \<Rightarrow> (Return (Pending task), tp', es)
      | (Throw m, tp', es) \<Rightarrow>
          (Return (Ready dflt), tp',
           es @ (if m = ''PoolNotRunning'' \<or> m = ''TaskQueueOverflow''
                 then [Cerr (''submitTask: '' @ m)] else []))
      | (Undefined, tp', es) \<Rightarrow> (Undefined, tp', es)
      | (Hangs, tp', es) \<Rightarrow> (Hangs, tp', es))"

section \<open>Notions used to state the properties of the active pool\<close>

text \<open>\<open>public_load()\<close> of the worker at index \<open>j\<close>.\<close>

definition load :: "'a ThreadWithDQ option list \<Rightarrow> nat \<Rightarrow> size_t" where
  "load ths j = (case worker_at ths j of None \<Rightarrow> 0 | Some w \<Rightarrow> getPublicTaskCount w)"

text \<open>
  Index \<open>i\<close> has the minimal public load, and every earlier index has a larger one.
  Workers are created in the order of their ids, so the lowest index is the lowest id.
\<close>

definition least_loaded :: "'a ThreadWithDQ option list \<Rightarrow> nat \<Rightarrow> bool" where
  "least_loaded ths i \<longleftrightarrow>
     i < length ths \<and> (\<forall>j<length ths. load ths i \<le> load ths j) \<and>
     (\<forall>j<i. load ths i < load ths j)"

text \<open>
  The workers are running: there is at least one, \<open>curThreadCount_\<close> counts the
  vector, no pointer is null, no submitter is inside \<open>giveTask\<close>, and every public
  counter fits the \<open>int\<close> it is copied to.
\<close>

definition workers_running :: "'a ActivePool \<Rightarrow> bool" where
  "workers_running p \<longleftrightarrow>
     ActivePool.threads p \<noteq> [] \<and>
     unat (ActivePool.curThreadCount p) = length (ActivePool.threads p) \<and>
     list_all (\<lambda>x. case x of None \<Rightarrow> False
                    | Some w \<Rightarrow> \<not> pubLock w \<and> publicTaskCount w < 2 ^ 31)
       (ActivePool.threads p)"

text \<open>
  \<open>threads_[i]->giveTask(task)\<close> returned and turned pool \<open>p\<close> into \<open>p'\<close>: only
  the worker at index \<open>i\<close> differs.
\<close>

definition gives_to :: "'a \<Rightarrow> 'a ActivePool \<Rightarrow> nat \<Rightarrow> 'a ActivePool \<Rightarrow> bool" where
  "gives_to task p i p' \<longleftrightarrow>
     (case worker_at (ActivePool.threads p) i of
        None \<Rightarrow> False
      | Some w \<Rightarrow>
          (case giveTask task w of
             None \<Rightarrow> False
           | Some (w', es) \<Rightarrow>
               es = [Acquire PubLock, Release PubLock] \<and>
               p' = p\<lparr>ActivePool.threads := (ActivePool.threads p)[i := Some w']\<rparr>))"

definition busy_line :: "'a effect list" where
  "busy_line = [SleepFor 1, Cerr ''ThreadPool is busy, waiting for 1 second...'']"

section \<open>Notions used to state the properties of the shared queue\<close>

text \<open>
  The pool as the predicate of a wait sees it, evaluation after evaluation: first as
  the call finds it, then after each wait.
\<close>

fun wait_states :: "('s \<Rightarrow> 's) list \<Rightarrow> 's \<Rightarrow> 's list" where
  "wait_states [] s = [s]"
| "wait_states (w # ws) s = s # wait_states ws (w s)"

section \<open>Sample pools\<close>

text \<open>An active pool of three workers right after \<open>start(3)\<close>, and after one task.\<close>

definition running3 :: "nat ActivePool" where
  "running3 = fst (snd (ActivePool_start 3 (ActivePool_ctor 0)))"

definition after1 :: "nat ActivePool" where
  "after1 = fst (snd (ActivePool_submitTask (\<lambda>p. p) 9 running3))"

text \<open>
  An active pool whose only worker has its public queue at the cap, and the same pool
  after that worker has swapped its queues.
\<close>

definition full1 :: "nat ActivePool" where
  "full1 = (ActivePool_ctor 0)\<lparr>state := STATE_RUNNING, threadIdBase := 1,
       ActivePool.initThreadCount := 1, ActivePool.curThreadCount := 1,
       ActivePool.threads :=
         [Some ((ThreadWithDQ_ctor 0)\<lparr>publicTaskCount := 500001,
                   TaskQ1 := replicate 500001 7\<rparr>)]\<rparr>"

definition swapped1 :: "nat ActivePool" where
  "swapped1 = full1\<lparr>ActivePool.threads :=
       [Some ((ThreadWithDQ_ctor 0)\<lparr>privateTaskCount := 500001, TaskQ1 := replicate 500001 7,
                 publicQ := Q2, privateQ := Q1\<rparr>)]\<rparr>"

text \<open>
  A fixed and a cached pool with room for two tasks, started with one worker, both
  with two tasks waiting; and what a worker does to each when it takes a task.
\<close>

definition fixed_full :: "nat FixedPool" where
  "fixed_full =
     (fst (snd (FixedPool_start 1 (fst (FixedPool_setTaskMaxCount 2 (FixedPool_ctor 0))))))
       \<lparr>FixedPool.taskQueue := [5, 6], FixedPool.taskCount := 2\<rparr>"

definition fixed_take :: "nat FixedPool \<Rightarrow> nat FixedPool" where
  "fixed_take q =
     q\<lparr>FixedPool.idleThreadCount := FixedPool.idleThreadCount q - 1,
       FixedPool.taskQueue := tl (FixedPool.taskQueue q),
       FixedPool.taskCount := FixedPool.taskCount q - 1\<rparr>"

definition cached_full :: "nat CachedPool" where
  "cached_full =
     (fst (snd (CachedPool_start 1 (fst (CachedPool_setTaskMaxCount 2 (CachedPool_ctor 0))))))
       \<lparr>CachedPool.taskQueue := [5, 6], CachedPool.taskCount := 2\<rparr>"

definition cached_take :: "nat CachedPool \<Rightarrow> nat CachedPool" where
  "cached_take q =
     q\<lparr>CachedPool.idleThreadCount := CachedPool.idleThreadCount q - 1,
       CachedPool.taskQueue := tl (CachedPool.taskQueue q),
       CachedPool.taskCount := CachedPool.taskCount q - 1\<rparr>"

text \<open>
  A cached pool started with one worker (id 0). Two tasks are submitted before the
  worker takes one, so the second submit starts worker 1.
\<close>

definition cached_started :: "nat CachedPool" where
  "cached_started = fst (snd (CachedPool_start 1 (CachedPool_ctor 0)))"

definition cached_grown :: "nat CachedPool" where
  "cached_grown =
     fst (snd (CachedPool_submitTask [] 6 (fst (snd (CachedPool_submitTask [] 5 cached_started)))))"














section \<open>Facts about the spin lock\<close>

lemma spinlock_lock_free [simp]: "spinlock_lock False = Some True"
  by (subst spinlock_lock.simps) simp

lemma spinlock_lock_returns_free:
  assumes "spinlock_lock flag = Some held"
  shows "\<not> flag"
  using assms
  by (rule spinlock_lock.raw_induct [rotated 1, where P = "\<lambda>flag held. \<not> flag"])
     (auto split: if_splits)

lemma spinlock_lock_held [simp]: "spinlock_lock True = None"
  using spinlock_lock_returns_free [of True] by (cases "spinlock_lock True") auto

section \<open>The double queue of a worker\<close>


lemma consume_loop_eq: "consume_loop q es = ([], es @ map Run q)"
  by (induction q arbitrary: es) auto

lemma executed_append: "executed (xs @ ys) = executed xs + executed ys"
  by (simp add: executed_def)

lemma executed_map_Run: "executed (map Run q) = length q"
  by (induction q) (auto simp: executed_def)

lemma giveTask_free:
  "\<not> pubLock s \<Longrightarrow> giveTask t s =
     Some (assign (publicQ s) (deref (publicQ s) s @ [t]) s
             \<lparr>publicTaskCount := publicTaskCount s + 1, pubLock := False\<rparr>,
           [Acquire PubLock, Release PubLock])"
  by (cases "publicQ s") (simp_all add: giveTask_def spinlock_unlock_def Let_def)

lemma swapQ_free:
  "\<not> pubLock s \<Longrightarrow> \<not> priLock s \<Longrightarrow> swapQ s =
     Some (s\<lparr>publicQ := privateQ s, privateQ := publicQ s,
              publicTaskCount := privateTaskCount s, privateTaskCount := publicTaskCount s\<rparr>,
           [Acquire PubLock, Acquire PriLock, Release PriLock, Release PubLock])"
  by (simp add: swapQ_def spinlock_unlock_def Let_def)

lemma consumeTasks_free:
  "\<not> priLock s \<Longrightarrow> consumeTasks s =
     Some (assign (privateQ s) [] s \<lparr>privateTaskCount := 0, priLock := False\<rparr>,
           [Acquire PriLock] @ map Run (deref (privateQ s) s) @ [Release PriLock])"
  by (cases "privateQ s") (simp_all add: consumeTasks_def spinlock_unlock_def Let_def consume_loop_eq)

lemma dq_inv_ctor: "dq_inv (ThreadWithDQ_ctor tid)"
  by (simp add: dq_inv_def ThreadWithDQ_ctor_def)

lemma giveTask_inv:
  assumes "dq_inv s"
  shows "\<exists>s' es. giveTask t s = Some (s', es) \<and> dq_inv s' \<and> executed es = 0 \<and>
           stored s' = stored s + 1 \<and> getTaskCount s' = getTaskCount s + 1"
proof -
  from assms have f: "\<not> pubLock s" by (simp add: dq_inv_def)
  show ?thesis
    using assms
    by (cases "publicQ s"; cases "privateQ s")
       (simp_all add: giveTask_free [OF f] dq_inv_def executed_def stored_def getTaskCount_def)
qed

lemma swapQ_inv:
  assumes "dq_inv s"
  shows "\<exists>s' es. swapQ s = Some (s', es) \<and> dq_inv s' \<and> executed es = 0 \<and>
           stored s' = stored s \<and> getTaskCount s' = getTaskCount s"
proof -
  from assms have f: "\<not> pubLock s" "\<not> priLock s" by (simp_all add: dq_inv_def)
  show ?thesis
    using assms
    by (cases "publicQ s"; cases "privateQ s")
       (simp_all add: swapQ_free [OF f] dq_inv_def executed_def stored_def getTaskCount_def)
qed

lemma consumeTasks_inv:
  assumes "dq_inv s"
  shows "\<exists>s' es. consumeTasks s = Some (s', es) \<and> dq_inv s' \<and>
           stored s' + executed es = stored s \<and>
           getTaskCount s' + of_nat (executed es) = getTaskCount s"
proof -
  from assms have f: "\<not> priLock s" by (simp add: dq_inv_def)
  show ?thesis
    using assms
    by (cases "publicQ s"; cases "privateQ s")
       (simp_all add: consumeTasks_free [OF f] dq_inv_def executed_append executed_map_Run
          stored_def getTaskCount_def, simp_all add: executed_def)
qed

lemma trySwapQ_inv:
  assumes "dq_inv s"
  shows "\<exists>r s' es. trySwapQ s = Some (r, s', es) \<and> dq_inv s' \<and> executed es = 0 \<and>
           stored s' = stored s"
  using swapQ_inv [OF assms] assms
  by (auto simp: trySwapQ_def executed_def)

lemma do_call_inv:
  assumes "dq_inv s"
  shows "\<exists>s' es. do_call c s = Some (s', es) \<and> dq_inv s' \<and>
           stored s' + executed es = stored s + (if is_Give c then 1 else 0)"
proof (cases c)
  case (Give t)
  then show ?thesis using giveTask_inv [OF assms, of t] by auto
next
  case TrySwap
  then show ?thesis using trySwapQ_inv [OF assms] by auto
next
  case Consume
  then show ?thesis using consumeTasks_inv [OF assms] by auto
qed

lemma do_calls_inv:
  assumes "dq_inv s"
  shows "\<exists>s' es. do_calls cs s = Some (s', es) \<and> dq_inv s' \<and>
           stored s' + executed es = stored s + given cs"
  using assms
proof (induction cs arbitrary: s)
  case Nil
  then show ?case by (simp add: executed_def given_def)
next
  case (Cons c cs)
  from do_call_inv [OF Cons.prems, of c] obtain s1 es1 where
    c: "do_call c s = Some (s1, es1)" and i1: "dq_inv s1"
    and n1: "stored s1 + executed es1 = stored s + (if is_Give c then 1 else 0)"
    by blast
  from Cons.IH [OF i1] obtain s2 es2 where
    cs: "do_calls cs s1 = Some (s2, es2)" and i2: "dq_inv s2"
    and n2: "stored s2 + executed es2 = stored s1 + given cs"
    by blast
  have "stored s2 + executed (es1 @ es2) = stored s + given (c # cs)"
    using n1 n2 by (cases "is_Give c") (simp_all add: executed_append given_def)
  with c cs i2 show ?case by simp
qed

lemma dq_inv_count: "dq_inv s \<Longrightarrow> getTaskCount s = of_nat (stored s)"
  by (cases "publicQ s"; cases "privateQ s") (auto simp: dq_inv_def getTaskCount_def stored_def)

text \<open>
  C3. Start from a freshly constructed worker and make any sequence of calls of
  \<open>giveTask\<close>, \<open>trySwapQ\<close> and \<open>consumeTasks\<close>. Every call returns, and afterwards
  \<open>publicTaskCount_ + privateTaskCount_\<close> (a \<open>size_t\<close> sum, so read modulo \<open>2^64\<close>) is
  the number of tasks given minus the number of tasks executed. From that state one
  more \<open>giveTask\<close> raises the sum by exactly one, \<open>swapQ\<close> leaves it as it is, and
  \<open>consumeTasks\<close> lowers it by the number of tasks it executes.
\<close>

theorem dq_count_invariant:
  "\<exists>s es. do_calls cs (ThreadWithDQ_ctor tid) = Some (s, es) \<and>
      executed es \<le> given cs \<and>
      unat (getTaskCount s) = (given cs - executed es) mod 2 ^ 64 \<and>
      (\<forall>t. \<exists>s' es'. giveTask t s = Some (s', es') \<and> getTaskCount s' = getTaskCount s + 1) \<and>
      (\<exists>s' es'. swapQ s = Some (s', es') \<and> getTaskCount s' = getTaskCount s) \<and>
      (\<exists>s' es'. consumeTasks s = Some (s', es') \<and>
          getTaskCount s' + of_nat (executed es') = getTaskCount s)"
proof -
  from do_calls_inv [OF dq_inv_ctor, of cs tid] obtain s es where
    r: "do_calls cs (ThreadWithDQ_ctor tid) = Some (s, es)" and i: "dq_inv s"
    and n: "stored s + executed es = stored (ThreadWithDQ_ctor tid :: 'a ThreadWithDQ) + given cs"
    by blast
  have z: "stored (ThreadWithDQ_ctor tid :: 'a ThreadWithDQ) = 0"
    by (simp add: stored_def ThreadWithDQ_ctor_def)
  from n z have e: "executed es \<le> given cs" and st: "stored s = given cs - executed es"
    by simp_all
  have u: "unat (getTaskCount s) = (given cs - executed es) mod 2 ^ 64"
    by (simp add: dq_inv_count [OF i] st unat_of_nat)
  have g: "\<forall>t. \<exists>s' es'. giveTask t s = Some (s', es') \<and> getTaskCount s' = getTaskCount s + 1"
    using giveTask_inv [OF i] by blast
  have w: "\<exists>s' es'. swapQ s = Some (s', es') \<and> getTaskCount s' = getTaskCount s"
    using swapQ_inv [OF i] by blast
  have c: "\<exists>s' es'. consumeTasks s = Some (s', es') \<and>
          getTaskCount s' + of_nat (executed es') = getTaskCount s"
    using consumeTasks_inv [OF i] by blast
  from r e u g w c show ?thesis by blast
qed

theorem dq_count_invariant_witness:
  "\<exists>s es. do_calls [Give 1, Give 2, TrySwap, Consume, Give 3]
             (ThreadWithDQ_ctor 0 :: nat ThreadWithDQ) = Some (s, es) \<and>
     filter is_Run es = [Run 1, Run 2] \<and>
     unat (getTaskCount s) = 1"
  using dq_count_invariant [of "[Give 1, Give 2, TrySwap, Consume, Give (3::nat)]" 0]
  by (simp add: giveTask_def trySwapQ_def swapQ_def consumeTasks_def ThreadWithDQ_ctor_def
        spinlock_unlock_def getTaskCount_def)

text \<open>
  C5. \<open>trySwapQ\<close> on any worker: with \<open>privateTaskCount_\<close> not zero it returns 0
  (the private side still has work) and changes nothing; with both counters zero it
  returns -1 (empty) and changes nothing; otherwise, with both spin locks free, it
  takes the public lock, then the private lock, exchanges the two queue pointers and
  the two counters, releases the locks and returns 1 (swapped). In that last case a
  lock that is held makes the call spin: it does not return before the lock is free.
\<close>

theorem trySwapQ_outcomes:
  "(privateTaskCount s \<noteq> 0 \<longrightarrow> trySwapQ s = Some (0, s, [])) \<and>
   (privateTaskCount s = 0 \<and> publicTaskCount s = 0 \<longrightarrow> trySwapQ s = Some (-1, s, [])) \<and>
   (privateTaskCount s = 0 \<and> publicTaskCount s \<noteq> 0 \<and> \<not> pubLock s \<and> \<not> priLock s \<longrightarrow>
      trySwapQ s =
        Some (1,
              s\<lparr>publicQ := privateQ s, privateQ := publicQ s,
                publicTaskCount := privateTaskCount s, privateTaskCount := publicTaskCount s\<rparr>,
              [Acquire PubLock, Acquire PriLock, Release PriLock, Release PubLock])) \<and>
   (privateTaskCount s = 0 \<and> publicTaskCount s \<noteq> 0 \<and> (pubLock s \<or> priLock s) \<longrightarrow>
      trySwapQ s = None)"
proof (intro conjI impI)
  assume "privateTaskCount s \<noteq> 0"
  then show "trySwapQ s = Some (0, s, [])"
    by (simp add: trySwapQ_def)
next
  assume "privateTaskCount s = 0 \<and> publicTaskCount s = 0"
  then show "trySwapQ s = Some (-1, s, [])"
    by (simp add: trySwapQ_def)
next
  assume "privateTaskCount s = 0 \<and> publicTaskCount s \<noteq> 0 \<and> \<not> pubLock s \<and> \<not> priLock s"
  then show "trySwapQ s =
        Some (1,
              s\<lparr>publicQ := privateQ s, privateQ := publicQ s,
                publicTaskCount := privateTaskCount s, privateTaskCount := publicTaskCount s\<rparr>,
              [Acquire PubLock, Acquire PriLock, Release PriLock, Release PubLock])"
    by (simp add: trySwapQ_def swapQ_free)
next
  assume held: "privateTaskCount s = 0 \<and> publicTaskCount s \<noteq> 0 \<and> (pubLock s \<or> priLock s)"
  have "swapQ s = None"
  proof (cases "pubLock s")
    case True
    then show ?thesis by (simp add: swapQ_def)
  next
    case False
    with held have "priLock s" by simp
    with False show ?thesis by (simp add: swapQ_def)
  qed
  with held show "trySwapQ s = None"
    by (simp add: trySwapQ_def)
qed

theorem trySwapQ_outcomes_witness:
  "trySwapQ ((ThreadWithDQ_ctor 0 :: nat ThreadWithDQ)\<lparr>privateTaskCount := 1, TaskQ2 := [7]\<rparr>) =
     Some (0, (ThreadWithDQ_ctor 0)\<lparr>privateTaskCount := 1, TaskQ2 := [7]\<rparr>, []) \<and>
   trySwapQ (ThreadWithDQ_ctor 0 :: nat ThreadWithDQ) = Some (-1, ThreadWithDQ_ctor 0, []) \<and>
   trySwapQ ((ThreadWithDQ_ctor 0 :: nat ThreadWithDQ)\<lparr>publicTaskCount := 2, TaskQ1 := [7, 8]\<rparr>) =
     Some (1,
           (ThreadWithDQ_ctor 0)\<lparr>publicTaskCount := 0, privateTaskCount := 2, TaskQ1 := [7, 8],
              publicQ := Q2, privateQ := Q1\<rparr>,
           [Acquire PubLock, Acquire PriLock, Release PriLock, Release PubLock]) \<and>
   trySwapQ ((ThreadWithDQ_ctor 0 :: nat ThreadWithDQ)\<lparr>publicTaskCount := 2, TaskQ1 := [7, 8],
               pubLock := True\<rparr>) = None"
  using trySwapQ_outcomes [of "(ThreadWithDQ_ctor 0 :: nat ThreadWithDQ)\<lparr>privateTaskCount := 1, TaskQ2 := [7]\<rparr>"]
    trySwapQ_outcomes [of "ThreadWithDQ_ctor 0 :: nat ThreadWithDQ"]
    trySwapQ_outcomes [of "(ThreadWithDQ_ctor 0 :: nat ThreadWithDQ)\<lparr>publicTaskCount := 2, TaskQ1 := [7, 8]\<rparr>"]
    trySwapQ_outcomes [of "(ThreadWithDQ_ctor 0 :: nat ThreadWithDQ)\<lparr>publicTaskCount := 2, TaskQ1 := [7, 8],
               pubLock := True\<rparr>"]
  by (simp add: ThreadWithDQ_ctor_def)

section \<open>The active pool: where a task goes\<close>


lemma widen_narrow:
  assumes "c < 2 ^ 31"
  shows "size_t_of_int (int_of_size_t c) = c"
proof -
  have u: "uint c < 2 ^ 31"
    using assms by (simp add: word_less_def)
  have n: "uint (ucast c :: 32 word) = uint c"
    using u by (simp add: unsigned_ucast_eq take_bit_int_eq_self)
  have "- (2 ^ 31) \<le> uint c"
    by (rule order_trans [of _ 0]) simp_all
  then have "signed_take_bit 31 (uint c) = uint c"
    using u by (rule signed_take_bit_int_eq_self)
  then have "sint (ucast c :: 32 word) = uint c"
    by (simp add: sint_uint n)
  then show ?thesis
    by (simp add: size_t_of_int_def int_of_size_t_def scast_eq)
qed

lemma scan_loop_upt:
  assumes "b \<le> length ths"
    and "\<forall>j<length ths. \<exists>w. ths ! j = Some w \<and> getPublicTaskCount w < 2 ^ 31"
    and "k < a" and "a \<le> b"
    and "load ths k = m"
    and "\<forall>j<a. m \<le> load ths j"
    and "\<forall>j<k. m < load ths j"
  shows "\<exists>k'. k' < b \<and> scan_loop ths [a ..< b] k (int_of_size_t m) =
                 Some (k', int_of_size_t (load ths k')) \<and>
               (\<forall>j<b. load ths k' \<le> load ths j) \<and> (\<forall>j<k'. load ths k' < load ths j)"
  using assms
proof (induction "b - a" arbitrary: a k m)
  case 0
  then have "a = b" by simp
  with 0 show ?case by auto
next
  case (Suc n)
  then have ab: "a < b" by simp
  then have upt: "[a ..< b] = a # [Suc a ..< b]" by (simp add: upt_conv_Cons)
  from Suc.prems ab obtain w where w: "ths ! a = Some w" and wl: "getPublicTaskCount w < 2 ^ 31"
    by (metis less_le_trans)
  have la: "load ths a = getPublicTaskCount w"
    using w ab Suc.prems(1) by (simp add: load_def worker_at_def)
  have wa: "worker_at ths a = Some w"
    using w ab Suc.prems(1) by (simp add: worker_at_def)
  have km: "m < 2 ^ 31"
  proof -
    from Suc.prems ab have "k < length ths" by simp
    with Suc.prems(2) obtain v where "ths ! k = Some v" "getPublicTaskCount v < 2 ^ 31" by blast
    with \<open>k < length ths\<close> Suc.prems(5) show ?thesis by (simp add: load_def worker_at_def)
  qed
  have n: "n = b - Suc a" using Suc.hyps(2) by simp
  show ?case
  proof (cases "getPublicTaskCount w < m")
    case True
    have step: "scan_loop ths [a ..< b] k (int_of_size_t m) =
                scan_loop ths [Suc a ..< b] a (int_of_size_t (load ths a))"
      using True by (simp add: upt wa widen_narrow [OF km] la)
    have "\<exists>k'. k' < b \<and> scan_loop ths [Suc a ..< b] a (int_of_size_t (load ths a)) =
                 Some (k', int_of_size_t (load ths k')) \<and>
               (\<forall>j<b. load ths k' \<le> load ths j) \<and> (\<forall>j<k'. load ths k' < load ths j)"
    proof (rule Suc.hyps(1) [OF n Suc.prems(1) Suc.prems(2)])
      show "a < Suc a" by simp
      show "Suc a \<le> b" using ab by simp
      show "load ths a = load ths a" by simp
      show "\<forall>j<Suc a. load ths a \<le> load ths j"
        using Suc.prems(6) True la by (auto simp: less_Suc_eq)
      show "\<forall>j<a. load ths a < load ths j"
        using Suc.prems(6) True la by (metis less_le_trans)
    qed
    with step show ?thesis by simp
  next
    case False
    have step: "scan_loop ths [a ..< b] k (int_of_size_t m) =
                scan_loop ths [Suc a ..< b] k (int_of_size_t m)"
      using False by (simp add: upt wa widen_narrow [OF km])
    have "\<exists>k'. k' < b \<and> scan_loop ths [Suc a ..< b] k (int_of_size_t m) =
                 Some (k', int_of_size_t (load ths k')) \<and>
               (\<forall>j<b. load ths k' \<le> load ths j) \<and> (\<forall>j<k'. load ths k' < load ths j)"
    proof (rule Suc.hyps(1) [OF n Suc.prems(1) Suc.prems(2)])
      show "k < Suc a" using Suc.prems(3) by simp
      show "Suc a \<le> b" using ab by simp
      show "load ths k = m" by (rule Suc.prems(5))
      show "\<forall>j<Suc a. m \<le> load ths j"
        using Suc.prems(6) False la by (auto simp: less_Suc_eq)
      show "\<forall>j<k. m < load ths j" by (rule Suc.prems(7))
    qed
    with step show ?thesis by simp
  qed
qed

lemma workers_running_nth:
  assumes "workers_running p" and "j < length (ActivePool.threads p)"
  shows "\<exists>w. ActivePool.threads p ! j = Some w \<and> \<not> pubLock w \<and> getPublicTaskCount w < 2 ^ 31"
proof -
  from assms have "case ActivePool.threads p ! j of None \<Rightarrow> False
      | Some w \<Rightarrow> \<not> pubLock w \<and> publicTaskCount w < 2 ^ 31"
    by (simp add: workers_running_def list_all_length)
  then show ?thesis
    by (cases "ActivePool.threads p ! j") (simp_all add: getPublicTaskCount_def)
qed

lemma trySubmitTask_running:
  assumes "workers_running p"
  shows "\<exists>i w w'. least_loaded (ActivePool.threads p) i \<and>
           worker_at (ActivePool.threads p) i = Some w \<and>
           giveTask task w = Some (w', [Acquire PubLock, Release PubLock]) \<and>
           trySubmitTask task p =
             (if load (ActivePool.threads p) i = getTaskMaxCount p then (Return False, p, [])
              else (Return True,
                    p\<lparr>ActivePool.threads := (ActivePool.threads p)[i := Some w']\<rparr>,
                    [Acquire PubLock, Release PubLock]))"
proof -
  let ?ths = "ActivePool.threads p"
  from assms have ne: "0 < length ?ths" and cur: "unat (ActivePool.curThreadCount p) = length ?ths"
    by (simp_all add: workers_running_def)
  have all: "\<forall>j<length ?ths. \<exists>w. ?ths ! j = Some w \<and> getPublicTaskCount w < 2 ^ 31"
    using workers_running_nth [OF assms] by blast
  from workers_running_nth [OF assms ne] obtain w0 where
    w0: "?ths ! 0 = Some w0" by blast
  have wa0: "worker_at ?ths 0 = Some w0" using w0 ne by (simp add: worker_at_def)
  have l0: "load ?ths 0 = getPublicTaskCount w0" using wa0 by (simp add: load_def)
  have "\<exists>k'. k' < length ?ths \<and>
          scan_loop ?ths [1 ..< length ?ths] 0 (int_of_size_t (load ?ths 0)) =
            Some (k', int_of_size_t (load ?ths k')) \<and>
          (\<forall>j<length ?ths. load ?ths k' \<le> load ?ths j) \<and> (\<forall>j<k'. load ?ths k' < load ?ths j)"
  proof (rule scan_loop_upt [OF _ all])
    show "length ?ths \<le> length ?ths" by simp
    show "0 < (1::nat)" by simp
    show "1 \<le> length ?ths" using ne by (simp add: Suc_le_eq)
    show "load ?ths 0 = load ?ths 0" by simp
    show "\<forall>j<1. load ?ths 0 \<le> load ?ths j" by simp
    show "\<forall>j<0. load ?ths 0 < load ?ths j" by simp
  qed
  then obtain i where i: "i < length ?ths"
    and sc: "scan_loop ?ths [1 ..< length ?ths] 0 (int_of_size_t (load ?ths 0)) =
               Some (i, int_of_size_t (load ?ths i))"
    and mn: "\<forall>j<length ?ths. load ?ths i \<le> load ?ths j"
    and fs: "\<forall>j<i. load ?ths i < load ?ths j"
    by blast
  from workers_running_nth [OF assms i] obtain w where
    w: "?ths ! i = Some w" and free: "\<not> pubLock w" and small: "getPublicTaskCount w < 2 ^ 31"
    by blast
  have wa: "worker_at ?ths i = Some w" using w i by (simp add: worker_at_def)
  have li: "load ?ths i = getPublicTaskCount w" using wa by (simp add: load_def)
  have wn: "size_t_of_int (int_of_size_t (load ?ths i)) = load ?ths i"
    using small li by (simp add: widen_narrow)
  have ll: "least_loaded ?ths i"
    using i mn fs by (simp add: least_loaded_def)
  obtain w' where g: "giveTask task w = Some (w', [Acquire PubLock, Release PubLock])"
    using giveTask_free [OF free] by simp
  have "trySubmitTask task p =
          (if load ?ths i = getTaskMaxCount p then (Return False, p, [])
           else (Return True, p\<lparr>ActivePool.threads := ?ths[i := Some w']\<rparr>,
                 [Acquire PubLock, Release PubLock]))"
    using sc l0 by (simp add: trySubmitTask_def wa0 cur wn wa g)
  with ll wa g show ?thesis by blast
qed

lemma trySubmitTask_gives:
  assumes "workers_running p"
  shows "\<exists>i. least_loaded (ActivePool.threads p) i \<and>
           (if load (ActivePool.threads p) i = getTaskMaxCount p
            then trySubmitTask task p = (Return False, p, [])
            else \<exists>p'. gives_to task p i p' \<and>
                   trySubmitTask task p = (Return True, p', [Acquire PubLock, Release PubLock]))"
proof -
  from trySubmitTask_running [OF assms, of task] obtain i w w' where
    ll: "least_loaded (ActivePool.threads p) i"
    and wa: "worker_at (ActivePool.threads p) i = Some w"
    and g: "giveTask task w = Some (w', [Acquire PubLock, Release PubLock])"
    and t: "trySubmitTask task p =
             (if load (ActivePool.threads p) i = getTaskMaxCount p then (Return False, p, [])
              else (Return True,
                    p\<lparr>ActivePool.threads := (ActivePool.threads p)[i := Some w']\<rparr>,
                    [Acquire PubLock, Release PubLock]))"
    by blast
  have "gives_to task p i (p\<lparr>ActivePool.threads := (ActivePool.threads p)[i := Some w']\<rparr>)"
    by (simp add: gives_to_def wa g)
  with t have "if load (ActivePool.threads p) i = getTaskMaxCount p
            then trySubmitTask task p = (Return False, p, [])
            else \<exists>p'. gives_to task p i p' \<and>
                   trySubmitTask task p = (Return True, p', [Acquire PubLock, Release PubLock])"
    by auto
  with ll show ?thesis by blast
qed

lemma fresh_ids_3: "fresh_ids 3 b = [b, b + 1, b + 2]"
  by (simp add: numeral_3_eq_3)

lemma upt_1_3: "[Suc 0 ..< 3] = [1, 2]"
  by (simp add: upt_rec)

lemma start3: "ActivePool_start 3 (ActivePool_ctor 0 :: nat ActivePool) =
   (Return (),
    (ActivePool_ctor 0)\<lparr>state := STATE_RUNNING, threadIdBase := 3,
       ActivePool.initThreadCount := 3, ActivePool.curThreadCount := 3,
       ActivePool.threads := [Some (ThreadWithDQ_ctor 0), Some (ThreadWithDQ_ctor 1),
                              Some (ThreadWithDQ_ctor 2)]\<rparr>,
    [ThreadStart 0, ThreadStart 1, ThreadStart 2])"
  by (simp add: ActivePool_start_def ActivePool_ctor_def create_loop_def size_t_of_int_def
      fresh_ids_3 ThreadWithDQ_ctor_def)

lemma running3_eq: "running3 =
    (ActivePool_ctor 0)\<lparr>state := STATE_RUNNING, threadIdBase := 3,
       ActivePool.initThreadCount := 3, ActivePool.curThreadCount := 3,
       ActivePool.threads := [Some (ThreadWithDQ_ctor 0), Some (ThreadWithDQ_ctor 1),
                              Some (ThreadWithDQ_ctor 2)]\<rparr>"
  by (simp add: running3_def start3)

lemmas active_eval =
  ActivePool_submitTask_def trySubmitTask_def worker_at_def
  ActivePool_ctor_def ThreadWithDQ_ctor_def getPublicTaskCount_def getTaskMaxCount_def
  ThreadWithDQ_DEFAULT_TASK_MAX_COUNT_def int_of_size_t_def size_t_of_int_def
  giveTask_def spinlock_unlock_def upt_1_3 busy_line_def

lemma after1_eq: "after1 =
    running3\<lparr>ActivePool.threads :=
        [Some ((ThreadWithDQ_ctor 0)\<lparr>publicTaskCount := 1, TaskQ1 := [9]\<rparr>),
         Some (ThreadWithDQ_ctor 1), Some (ThreadWithDQ_ctor 2)]\<rparr>"
  by (simp add: after1_def running3_eq active_eval)

lemma running3_ok: "workers_running running3"
  by (simp add: running3_eq workers_running_def ActivePool_ctor_def ThreadWithDQ_ctor_def)

lemma after1_ok: "workers_running after1"
  by (simp add: after1_eq running3_eq workers_running_def ActivePool_ctor_def ThreadWithDQ_ctor_def)

lemma full1_ok: "workers_running full1"
  by (simp add: full1_def workers_running_def ActivePool_ctor_def ThreadWithDQ_ctor_def)

lemma swapped1_ok: "workers_running swapped1"
  by (simp add: swapped1_def full1_def workers_running_def ActivePool_ctor_def ThreadWithDQ_ctor_def)

text \<open>
  C4. Let the workers of an active pool be running. The scan of \<open>submitTask\<close> picks
  the index \<open>i\<close> whose public load is minimal, the lowest such index. If that load is
  not the cap, the task is given to worker \<open>i\<close> and \<open>notEmpty_\<close> is notified. If it
  is the cap, the call sleeps one second and writes its line; with the workers
  running after the sleep it then scans the pool as it is then exactly once more,
  picking \<open>k\<close> by the same rule: the task is given to worker \<open>k\<close> and \<open>notEmpty_\<close>
  is notified when that load is not the cap, and \<open>TaskQueueOverflow\<close> is thrown,
  with nothing given, exactly when it still is the cap.
\<close>

theorem ActivePool_submitTask_least_loaded:
  assumes "workers_running p"
  shows "\<exists>i. least_loaded (ActivePool.threads p) i \<and>
           (if load (ActivePool.threads p) i \<noteq> getTaskMaxCount p
            then \<exists>p'. gives_to task p i p' \<and>
                   ActivePool_submitTask during_sleep task p =
                     (Return (), p', [Acquire PubLock, Release PubLock, NotifyAll NotEmpty])
            else
              workers_running (during_sleep p) \<longrightarrow>
              (\<exists>k. least_loaded (ActivePool.threads (during_sleep p)) k \<and>
                 (if load (ActivePool.threads (during_sleep p)) k \<noteq> getTaskMaxCount (during_sleep p)
                  then \<exists>p'. gives_to task (during_sleep p) k p' \<and>
                         ActivePool_submitTask during_sleep task p =
                           (Return (), p',
                            busy_line @ [Acquire PubLock, Release PubLock, NotifyAll NotEmpty])
                  else ActivePool_submitTask during_sleep task p =
                         (Throw ''TaskQueueOverflow'', during_sleep p, busy_line))))"
proof -
  let ?q = "during_sleep p"
  from trySubmitTask_gives [OF assms, of task] obtain i where
    ll: "least_loaded (ActivePool.threads p) i"
    and t1: "if load (ActivePool.threads p) i = getTaskMaxCount p
            then trySubmitTask task p = (Return False, p, [])
            else \<exists>p'. gives_to task p i p' \<and>
                   trySubmitTask task p = (Return True, p', [Acquire PubLock, Release PubLock])"
    by blast
  show ?thesis
  proof (cases "load (ActivePool.threads p) i = getTaskMaxCount p")
    case False
    with t1 obtain p' where "gives_to task p i p'"
      and "trySubmitTask task p = (Return True, p', [Acquire PubLock, Release PubLock])"
      by auto
    then have "\<exists>p'. gives_to task p i p' \<and>
                   ActivePool_submitTask during_sleep task p =
                     (Return (), p', [Acquire PubLock, Release PubLock, NotifyAll NotEmpty])"
      by (auto simp: ActivePool_submitTask_def)
    with ll False show ?thesis by auto
  next
    case True
    with t1 have first: "trySubmitTask task p = (Return False, p, [])" by simp
    have "workers_running ?q \<longrightarrow>
            (\<exists>k. least_loaded (ActivePool.threads ?q) k \<and>
                 (if load (ActivePool.threads ?q) k \<noteq> getTaskMaxCount ?q
                  then \<exists>p'. gives_to task ?q k p' \<and>
                         ActivePool_submitTask during_sleep task p =
                           (Return (), p',
                            busy_line @ [Acquire PubLock, Release PubLock, NotifyAll NotEmpty])
                  else ActivePool_submitTask during_sleep task p =
                         (Throw ''TaskQueueOverflow'', ?q, busy_line)))"
    proof
      assume "workers_running ?q"
      from trySubmitTask_gives [OF this, of task] obtain k where
        ll2: "least_loaded (ActivePool.threads ?q) k"
        and t2: "if load (ActivePool.threads ?q) k = getTaskMaxCount ?q
            then trySubmitTask task ?q = (Return False, ?q, [])
            else \<exists>p'. gives_to task ?q k p' \<and>
                   trySubmitTask task ?q = (Return True, p', [Acquire PubLock, Release PubLock])"
        by blast
      have "if load (ActivePool.threads ?q) k \<noteq> getTaskMaxCount ?q
          then \<exists>p'. gives_to task ?q k p' \<and>
                 ActivePool_submitTask during_sleep task p =
                   (Return (), p',
                    busy_line @ [Acquire PubLock, Release PubLock, NotifyAll NotEmpty])
          else ActivePool_submitTask during_sleep task p =
                 (Throw ''TaskQueueOverflow'', ?q, busy_line)"
        using t2 by (auto simp: ActivePool_submitTask_def first busy_line_def)
      with ll2 show "\<exists>k. least_loaded (ActivePool.threads ?q) k \<and>
                 (if load (ActivePool.threads ?q) k \<noteq> getTaskMaxCount ?q
                  then \<exists>p'. gives_to task ?q k p' \<and>
                         ActivePool_submitTask during_sleep task p =
                           (Return (), p',
                            busy_line @ [Acquire PubLock, Release PubLock, NotifyAll NotEmpty])
                  else ActivePool_submitTask during_sleep task p =
                         (Throw ''TaskQueueOverflow'', ?q, busy_line))"
        by blast
    qed
    with ll True show ?thesis by auto
  qed
qed

theorem ActivePool_submitTask_least_loaded_witness:
  "workers_running running3 \<and> least_loaded (ActivePool.threads running3) 0 \<and>
   ActivePool_submitTask (\<lambda>p. p) 9 running3 =
     (Return (), after1, [Acquire PubLock, Release PubLock, NotifyAll NotEmpty]) \<and>
   workers_running after1 \<and> least_loaded (ActivePool.threads after1) 1 \<and>
   ActivePool_submitTask (\<lambda>p. p) 8 after1 =
     (Return (),
      after1\<lparr>ActivePool.threads :=
        [Some ((ThreadWithDQ_ctor 0)\<lparr>publicTaskCount := 1, TaskQ1 := [9]\<rparr>),
         Some ((ThreadWithDQ_ctor 1)\<lparr>publicTaskCount := 1, TaskQ1 := [8]\<rparr>),
         Some (ThreadWithDQ_ctor 2)]\<rparr>,
      [Acquire PubLock, Release PubLock, NotifyAll NotEmpty]) \<and>
   workers_running full1 \<and> workers_running swapped1 \<and>
   ActivePool_submitTask (\<lambda>p. p) 8 full1 = (Throw ''TaskQueueOverflow'', full1, busy_line) \<and>
   ActivePool_submitTask (\<lambda>p. swapped1) 8 full1 =
     (Return (),
      swapped1\<lparr>ActivePool.threads :=
        [Some ((ThreadWithDQ_ctor 0)\<lparr>publicTaskCount := 1, privateTaskCount := 500001,
                  TaskQ1 := replicate 500001 7, TaskQ2 := [8],
                  publicQ := Q2, privateQ := Q1\<rparr>)]\<rparr>,
      busy_line @ [Acquire PubLock, Release PubLock, NotifyAll NotEmpty])"
proof -
  note t1 = ActivePool_submitTask_least_loaded [OF running3_ok, of 9 "\<lambda>p. p"]
  note t2 = ActivePool_submitTask_least_loaded [OF after1_ok, of 8 "\<lambda>p. p"]
  note t3 = ActivePool_submitTask_least_loaded [OF full1_ok, of 8 "\<lambda>p. p"]
  note t4 = ActivePool_submitTask_least_loaded [OF full1_ok, of 8 "\<lambda>p. swapped1"]
  have l0: "least_loaded (ActivePool.threads running3) 0"
    by (simp add: least_loaded_def running3_eq load_def worker_at_def getPublicTaskCount_def
        ThreadWithDQ_ctor_def)
  have l1: "least_loaded (ActivePool.threads after1) 1"
    by (simp add: least_loaded_def after1_eq running3_eq load_def worker_at_def
        getPublicTaskCount_def ThreadWithDQ_ctor_def less_Suc_eq numeral_3_eq_3)
  have e1: "ActivePool_submitTask (\<lambda>p. p) 9 running3 =
     (Return (), after1, [Acquire PubLock, Release PubLock, NotifyAll NotEmpty])"
    by (simp add: after1_eq running3_eq active_eval)
  have e2: "ActivePool_submitTask (\<lambda>p. p) 8 after1 =
     (Return (),
      after1\<lparr>ActivePool.threads :=
        [Some ((ThreadWithDQ_ctor 0)\<lparr>publicTaskCount := 1, TaskQ1 := [9]\<rparr>),
         Some ((ThreadWithDQ_ctor 1)\<lparr>publicTaskCount := 1, TaskQ1 := [8]\<rparr>),
         Some (ThreadWithDQ_ctor 2)]\<rparr>,
      [Acquire PubLock, Release PubLock, NotifyAll NotEmpty])"
    by (simp add: after1_eq running3_eq active_eval)
  have e3: "ActivePool_submitTask (\<lambda>p. p) 8 full1 = (Throw ''TaskQueueOverflow'', full1, busy_line)"
    by (simp add: full1_def active_eval)
  have e4: "ActivePool_submitTask (\<lambda>p. swapped1) 8 full1 =
     (Return (),
      swapped1\<lparr>ActivePool.threads :=
        [Some ((ThreadWithDQ_ctor 0)\<lparr>publicTaskCount := 1, privateTaskCount := 500001,
                  TaskQ1 := replicate 500001 7, TaskQ2 := [8],
                  publicQ := Q2, privateQ := Q1\<rparr>)]\<rparr>,
      busy_line @ [Acquire PubLock, Release PubLock, NotifyAll NotEmpty])"
    by (simp add: swapped1_def full1_def active_eval)
  from t1 t2 t3 t4 running3_ok after1_ok full1_ok swapped1_ok l0 l1 e1 e2 e3 e4
  show ?thesis by blast
qed

section \<open>The shared queue: submitting with a bounded wait\<close>


lemma wait_states_nonempty: "wait_states ws s \<noteq> []"
  by (cases ws) simp_all

lemma wait_for_pred_find:
  "wait_for_pred pred ws s =
     (case find pred (wait_states ws s) of
        None \<Rightarrow> (False, last (wait_states ws s))
      | Some s' \<Rightarrow> (True, s'))"
proof (induction ws arbitrary: s)
  case Nil
  then show ?case by simp
next
  case (Cons w ws)
  then show ?case by (simp add: wait_states_nonempty split: option.split)
qed

lemma spawn_if_needed_queue:
  "CachedPool.taskQueue (fst (spawn_if_needed p)) = CachedPool.taskQueue p \<and>
   CachedPool.taskCount (fst (spawn_if_needed p)) = CachedPool.taskCount p"
  by (simp add: spawn_if_needed_def Let_def)

lemma fresh_ids_1: "fresh_ids (Suc 0) b = [b]"
  by simp

lemma fixed_full_eq: "fixed_full =
    (FixedPool_ctor 0)\<lparr>state := STATE_RUNNING, threadIdBase := 1,
       FixedPool.initThreadCount := 1, FixedPool.idleThreadCount := 1,
       FixedPool.curThreadCount := 1, FixedPool.threads := {0},
       FixedPool.taskMaxCount := 2, FixedPool.taskCount := 2, FixedPool.taskQueue := [5, 6]\<rparr>"
  by (simp add: fixed_full_def FixedPool_start_def FixedPool_setTaskMaxCount_def
      checkSetPermission_def FixedPool_ctor_def create_loop_def size_t_of_int_def)

lemma cached_full_eq: "cached_full =
    (CachedPool_ctor 0)\<lparr>state := STATE_RUNNING, threadIdBase := 1,
       CachedPool.initThreadCount := 1, CachedPool.idleThreadCount := 1,
       CachedPool.curThreadCount := 1, CachedPool.threads := {0},
       CachedPool.taskMaxCount := 2, CachedPool.taskCount := 2, CachedPool.taskQueue := [5, 6]\<rparr>"
  by (simp add: cached_full_def CachedPool_start_def CachedPool_setTaskMaxCount_def
      checkSetPermission_def CachedPool_ctor_def create_loop_def size_t_of_int_def
      CachedPool_DEFAULT_THREAD_MAX_COUNT_def)

text \<open>
  C6. A \<open>submitTask\<close> of the fixed or of the cached pool in state RUNNING makes one
  call of \<open>notFull_.wait_for\<close> with a timeout of one second. If the queue is below
  \<open>taskMaxCount_\<close> at no evaluation of the predicate, the call throws
  \<open>TaskQueueOverflow\<close> and leaves the pool exactly as the last wait left it: nothing
  is enqueued. Otherwise it continues from the first pool state \<open>s\<close> with room: the
  task is appended to the queue of \<open>s\<close>, \<open>taskCount_\<close> is one more than in \<open>s\<close>,
  and \<open>notEmpty_\<close> is notified.
\<close>

theorem submitTask_bounded_wait:
  "(state p = STATE_RUNNING \<longrightarrow>
      FixedPool_submitTask ws task p =
        (case find fixed_has_room (wait_states ws p) of
           None \<Rightarrow> (Throw ''TaskQueueOverflow'', last (wait_states ws p), [WaitFor NotFull 1])
         | Some s \<Rightarrow>
             (Return (),
              s\<lparr>FixedPool.taskQueue := FixedPool.taskQueue s @ [task],
                FixedPool.taskCount := FixedPool.taskCount s + 1\<rparr>,
              [WaitFor NotFull 1, NotifyAll NotEmpty]))) \<and>
   (state c = STATE_RUNNING \<longrightarrow>
      (case find cached_has_room (wait_states vs c) of
         None \<Rightarrow>
           CachedPool_submitTask vs task c =
             (Throw ''TaskQueueOverflow'', last (wait_states vs c), [WaitFor NotFull 1])
       | Some s \<Rightarrow>
           (\<exists>c' es. CachedPool_submitTask vs task c =
                      (Return (), c', [WaitFor NotFull 1, NotifyAll NotEmpty] @ es) \<and>
                    CachedPool.taskQueue c' = CachedPool.taskQueue s @ [task] \<and>
                    CachedPool.taskCount c' = CachedPool.taskCount s + 1)))"
proof (intro conjI impI)
  assume "state p = STATE_RUNNING"
  then show "FixedPool_submitTask ws task p =
        (case find fixed_has_room (wait_states ws p) of
           None \<Rightarrow> (Throw ''TaskQueueOverflow'', last (wait_states ws p), [WaitFor NotFull 1])
         | Some s \<Rightarrow>
             (Return (),
              s\<lparr>FixedPool.taskQueue := FixedPool.taskQueue s @ [task],
                FixedPool.taskCount := FixedPool.taskCount s + 1\<rparr>,
              [WaitFor NotFull 1, NotifyAll NotEmpty]))"
    by (simp add: FixedPool_submitTask_def wait_for_pred_find split: option.split)
next
  assume r: "state c = STATE_RUNNING"
  show "case find cached_has_room (wait_states vs c) of
         None \<Rightarrow>
           CachedPool_submitTask vs task c =
             (Throw ''TaskQueueOverflow'', last (wait_states vs c), [WaitFor NotFull 1])
       | Some s \<Rightarrow>
           (\<exists>c' es. CachedPool_submitTask vs task c =
                      (Return (), c', [WaitFor NotFull 1, NotifyAll NotEmpty] @ es) \<and>
                    CachedPool.taskQueue c' = CachedPool.taskQueue s @ [task] \<and>
                    CachedPool.taskCount c' = CachedPool.taskCount s + 1)"
  proof (cases "find cached_has_room (wait_states vs c)")
    case None
    with r show ?thesis
      by (simp add: CachedPool_submitTask_def wait_for_pred_find)
  next
    case (Some s)
    let ?s' = "s\<lparr>CachedPool.taskQueue := CachedPool.taskQueue s @ [task],
                  CachedPool.taskCount := CachedPool.taskCount s + 1\<rparr>"
    have "CachedPool_submitTask vs task c =
            (Return (), fst (spawn_if_needed ?s'),
             [WaitFor NotFull 1, NotifyAll NotEmpty] @ snd (spawn_if_needed ?s'))"
      using r Some
      by (simp add: CachedPool_submitTask_def wait_for_pred_find split_beta Let_def)
    moreover have "CachedPool.taskQueue (fst (spawn_if_needed ?s')) = CachedPool.taskQueue s @ [task]"
      and "CachedPool.taskCount (fst (spawn_if_needed ?s')) = CachedPool.taskCount s + 1"
      by (simp_all add: spawn_if_needed_queue)
    ultimately show ?thesis using Some by simp
  qed
qed

theorem submitTask_bounded_wait_witness:
  "state fixed_full = STATE_RUNNING \<and> state cached_full = STATE_RUNNING \<and>
   FixedPool_submitTask [] 7 fixed_full =
     (Throw ''TaskQueueOverflow'', fixed_full, [WaitFor NotFull 1]) \<and>
   FixedPool_submitTask [fixed_take] 7 fixed_full =
     (Return (),
      fixed_full\<lparr>FixedPool.idleThreadCount := 0, FixedPool.taskQueue := [6, 7]\<rparr>,
      [WaitFor NotFull 1, NotifyAll NotEmpty]) \<and>
   CachedPool_submitTask [] 7 cached_full =
     (Throw ''TaskQueueOverflow'', cached_full, [WaitFor NotFull 1]) \<and>
   (\<exists>c' es. CachedPool_submitTask [cached_take] 7 cached_full =
              (Return (), c', [WaitFor NotFull 1, NotifyAll NotEmpty] @ es) \<and>
            CachedPool.taskQueue c' = [6, 7] \<and> CachedPool.taskCount c' = 2)"
proof -
  have f: "state fixed_full = STATE_RUNNING" and c: "state cached_full = STATE_RUNNING"
    by (simp_all add: fixed_full_eq cached_full_eq)
  have nf: "find fixed_has_room (wait_states [] fixed_full) = None"
    and nc: "find cached_has_room (wait_states [] cached_full) = None"
    by (simp_all add: fixed_full_eq cached_full_eq fixed_has_room_def cached_has_room_def
        FixedPool_ctor_def CachedPool_ctor_def)
  have sf: "find fixed_has_room (wait_states [fixed_take] fixed_full) = Some (fixed_take fixed_full)"
    and sc: "find cached_has_room (wait_states [cached_take] cached_full) =
               Some (cached_take cached_full)"
    by (simp_all add: fixed_full_eq cached_full_eq fixed_has_room_def cached_has_room_def
        FixedPool_ctor_def CachedPool_ctor_def fixed_take_def cached_take_def)
  have tf: "(fixed_take fixed_full)
              \<lparr>FixedPool.taskQueue := FixedPool.taskQueue (fixed_take fixed_full) @ [7],
                FixedPool.taskCount := FixedPool.taskCount (fixed_take fixed_full) + 1\<rparr> =
            fixed_full\<lparr>FixedPool.idleThreadCount := 0, FixedPool.taskQueue := [6, 7]\<rparr>"
    by (simp add: fixed_full_eq fixed_take_def FixedPool_ctor_def)
  have tc: "CachedPool.taskQueue (cached_take cached_full) @ [7] = [6, 7]"
    "CachedPool.taskCount (cached_take cached_full) + 1 = 2"
    by (simp_all add: cached_full_eq cached_take_def CachedPool_ctor_def)
  have lw: "last (wait_states [] fixed_full) = fixed_full"
    "last (wait_states [] cached_full) = cached_full"
    by simp_all
  from submitTask_bounded_wait [of fixed_full "[]" 7 cached_full "[]"]
    submitTask_bounded_wait [of fixed_full "[fixed_take]" 7 cached_full "[cached_take]"]
  show ?thesis
    by (simp add: f c nf nc sf sc tf tc lw del: wait_states.simps)
qed

section \<open>The cached pool: idle workers\<close>











lemmas cached_eval =
  CachedPool_start_def CachedPool_submitTask_def CachedPool_ctor_def create_loop_def
  size_t_of_int_def CachedPool_DEFAULT_THREAD_MAX_COUNT_def CachedPool_DEFAULT_TASK_MAX_COUNT_def
  CachedPool_DEFAULT_MAX_IDLE_SEC_def cached_has_room_def spawn_if_needed_def

lemma cached_started_eq: "cached_started =
    (CachedPool_ctor 0)\<lparr>state := STATE_RUNNING, threadIdBase := 1,
       CachedPool.initThreadCount := 1, CachedPool.idleThreadCount := 1,
       CachedPool.curThreadCount := 1, CachedPool.threads := {0}\<rparr>"
  by (simp add: cached_started_def cached_eval)

lemma cached_grown_eq: "cached_grown =
    (CachedPool_ctor 0)\<lparr>state := STATE_RUNNING, threadIdBase := 2,
       CachedPool.initThreadCount := 1, CachedPool.idleThreadCount := 2,
       CachedPool.curThreadCount := 2, CachedPool.threads := {0, 1},
       CachedPool.taskCount := 2, CachedPool.taskQueue := [5, 6]\<rparr>"
  by (simp add: cached_grown_def cached_started_eq cached_eval insert_commute)

















section \<open>What the constructors set\<close>

text \<open>
  C2, counterexample. A freshly constructed cached pool does not have the four values
  of the claim: its thread limit is 16, its task limit 1000001, its idle limit 30.
\<close>

theorem ctor_defaults_counterexample:
  "\<not> (CachedPool.initThreadCount (CachedPool_ctor 0) = 4 \<and>
      CachedPool.maxThreadCount (CachedPool_ctor 0) = 20 \<and>
      CachedPool.taskMaxCount (CachedPool_ctor 0) = 1024 \<and>
      CachedPool.threadMaxIdleSec (CachedPool_ctor 0) = 60)"
  by (simp add: CachedPool_ctor_def CachedPool_DEFAULT_THREAD_MAX_COUNT_def)

text \<open>
  C2, as amended. Before any setter is called, a cached pool has
  \<open>initThreadCount_ = 4\<close>, \<open>maxThreadCount_ = 16\<close>, \<open>taskMaxCount_ = 1000001\<close> and
  \<open>threadMaxIdleSec_ = 30\<close>; a fixed pool has \<open>initThreadCount_ = 4\<close> and
  \<open>taskMaxCount_ = 1000001\<close>, and no thread limit or idle limit; an active pool has
  \<open>initThreadCount_ = 4\<close> and a cap of 500001 tasks on every worker's public queue.
\<close>

theorem ctor_defaults:
  "CachedPool.initThreadCount (CachedPool_ctor base) = 4 \<and>
   CachedPool.maxThreadCount (CachedPool_ctor base) = 16 \<and>
   CachedPool.taskMaxCount (CachedPool_ctor base) = 1000001 \<and>
   CachedPool.threadMaxIdleSec (CachedPool_ctor base) = 30 \<and>
   FixedPool.initThreadCount (FixedPool_ctor base) = 4 \<and>
   FixedPool.taskMaxCount (FixedPool_ctor base) = 1000001 \<and>
   ActivePool.initThreadCount (ActivePool_ctor base) = 4 \<and>
   getTaskMaxCount (ActivePool_ctor base) = 500001"
  by (simp add: CachedPool_ctor_def FixedPool_ctor_def ActivePool_ctor_def getTaskMaxCount_def
      CachedPool_DEFAULT_THREAD_MAX_COUNT_def CachedPool_DEFAULT_TASK_MAX_COUNT_def
      CachedPool_DEFAULT_MAX_IDLE_SEC_def FixedPool_DEFAULT_TASK_MAX_COUNT_def
      ThreadWithDQ_DEFAULT_TASK_MAX_COUNT_def)

section \<open>Starting a cached pool with more threads than its limit\<close>

lemma set_fresh_ids: "set (fresh_ids n b) = {b ..< b + int n}"
  by (induction n arbitrary: b) auto

lemma length_fresh_ids: "length (fresh_ids n b) = n"
  by (induction n arbitrary: b) auto

lemma start20:
  "CachedPool_start 20 (CachedPool_ctor 0 :: 'a CachedPool) =
     (Return (),
      (CachedPool_ctor 0)\<lparr>state := STATE_RUNNING, threadIdBase := 16,
         CachedPool.initThreadCount := 16, CachedPool.threads := {0 ..< 16},
         CachedPool.curThreadCount := 20, CachedPool.idleThreadCount := 20\<rparr>,
      map ThreadStart (sorted_list_of_set {0 ..< 16}))"
  by (simp add: CachedPool_start_def CachedPool_ctor_def create_loop_def size_t_of_int_def
      CachedPool_DEFAULT_THREAD_MAX_COUNT_def set_fresh_ids length_fresh_ids Let_def)

text \<open>
  C10. \<open>start(20)\<close> on a cached pool with the default limit of 16 threads creates
  the 16 threads with ids 0 to 15 and sets \<open>initThreadCount_\<close> to 16, but it sets
  \<open>curThreadCount_\<close> (and \<open>idleThreadCount_\<close>) to 20, not to \<open>min(20, 16)\<close>.
\<close>

theorem CachedPool_start_unclamped_counter:
  "CachedPool_start 20 (CachedPool_ctor 0 :: 'a CachedPool) =
     (Return (),
      (CachedPool_ctor 0)\<lparr>state := STATE_RUNNING, threadIdBase := 16,
         CachedPool.initThreadCount := 16, CachedPool.threads := {0 ..< 16},
         CachedPool.curThreadCount := 20, CachedPool.idleThreadCount := 20\<rparr>,
      map ThreadStart (sorted_list_of_set {0 ..< 16})) \<and>
   CachedPool.maxThreadCount (CachedPool_ctor 0 :: 'a CachedPool) = 16 \<and>
   min (20 :: size_t) 16 = 16"
proof (intro conjI)
  show "CachedPool_start 20 (CachedPool_ctor 0 :: 'a CachedPool) =
     (Return (),
      (CachedPool_ctor 0)\<lparr>state := STATE_RUNNING, threadIdBase := 16,
         CachedPool.initThreadCount := 16, CachedPool.threads := {0 ..< 16},
         CachedPool.curThreadCount := 20, CachedPool.idleThreadCount := 20\<rparr>,
      map ThreadStart (sorted_list_of_set {0 ..< 16}))"
    by (rule start20)
  show "CachedPool.maxThreadCount (CachedPool_ctor 0 :: 'a CachedPool) = 16"
    by (simp add: CachedPool_ctor_def CachedPool_DEFAULT_THREAD_MAX_COUNT_def)
  show "min (20 :: size_t) 16 = 16"
    by simp
qed

text \<open>
  C7. After \<open>start(20)\<close> on a cached pool with the default limit of 16 threads,
  a \<open>submitTask\<close> enqueues its task and starts no thread; \<open>curThreadCount_\<close> is 20
  after it, above \<open>maxThreadCount_ = 16\<close>.
\<close>

theorem cached_counter_exceeds_max:
  "CachedPool_submitTask [] task (fst (snd (CachedPool_start 20 (CachedPool_ctor 0)))) =
     (Return (),
      (CachedPool_ctor 0)\<lparr>state := STATE_RUNNING, threadIdBase := 16,
         CachedPool.initThreadCount := 16, CachedPool.threads := {0 ..< 16},
         CachedPool.curThreadCount := 20, CachedPool.idleThreadCount := 20,
         CachedPool.taskCount := 1, CachedPool.taskQueue := [task]\<rparr>,
      [WaitFor NotFull 1, NotifyAll NotEmpty]) \<and>
   CachedPool.maxThreadCount (CachedPool_ctor 0 :: 'a CachedPool) = 16 \<and>
   (16 :: size_t) < 20"
  unfolding start20
  by (simp add: CachedPool_submitTask_def cached_has_room_def
      spawn_if_needed_def CachedPool_ctor_def CachedPool_DEFAULT_THREAD_MAX_COUNT_def
      CachedPool_DEFAULT_TASK_MAX_COUNT_def)

text \<open>
  X4. \<open>start(n)\<close> on a cached pool whose thread limit is below \<open>n\<close> (and fits an
  \<open>int\<close>) sets RUNNING, sets \<open>initThreadCount_\<close> to the limit and creates exactly
  that many threads, with the next ids; \<open>curThreadCount_\<close> and \<open>idleThreadCount_\<close>
  receive \<open>n\<close> itself.
\<close>

theorem CachedPool_start_clamps:
  assumes "CachedPool.maxThreadCount p < size_t_of_int n"
    and "unat (CachedPool.maxThreadCount p) \<le> 2 ^ 31 - 1"
  shows "\<exists>es. CachedPool_start n p =
           (Return (),
            p\<lparr>state := STATE_RUNNING,
              threadIdBase := threadIdBase p + int (unat (CachedPool.maxThreadCount p)),
              CachedPool.initThreadCount := CachedPool.maxThreadCount p,
              CachedPool.threads := CachedPool.threads p \<union>
                {threadIdBase p ..< threadIdBase p + int (unat (CachedPool.maxThreadCount p))},
              CachedPool.curThreadCount := size_t_of_int n,
              CachedPool.idleThreadCount := size_t_of_int n\<rparr>,
            es)"
  using assms
  by (simp add: CachedPool_start_def create_loop_def set_fresh_ids length_fresh_ids Let_def)

theorem CachedPool_start_clamps_witness:
  "CachedPool.maxThreadCount (CachedPool_ctor 0 :: nat CachedPool) < size_t_of_int 20 \<and>
   unat (CachedPool.maxThreadCount (CachedPool_ctor 0 :: nat CachedPool)) \<le> 2 ^ 31 - 1 \<and>
   (\<exists>es. CachedPool_start 20 (CachedPool_ctor 0 :: nat CachedPool) =
           (Return (),
            (CachedPool_ctor 0)\<lparr>state := STATE_RUNNING, threadIdBase := 16,
              CachedPool.initThreadCount := 16, CachedPool.threads := {0 ..< 16},
              CachedPool.curThreadCount := 20, CachedPool.idleThreadCount := 20\<rparr>,
            es))"
proof -
  have a: "CachedPool.maxThreadCount (CachedPool_ctor 0 :: nat CachedPool) < size_t_of_int 20"
    by (simp add: CachedPool_ctor_def CachedPool_DEFAULT_THREAD_MAX_COUNT_def size_t_of_int_def)
  have b: "unat (CachedPool.maxThreadCount (CachedPool_ctor 0 :: nat CachedPool)) \<le> 2 ^ 31 - 1"
    by (simp add: CachedPool_ctor_def CachedPool_DEFAULT_THREAD_MAX_COUNT_def)
  from CachedPool_start_clamps [OF a b] a b
  show ?thesis
    by (simp add: CachedPool_ctor_def CachedPool_DEFAULT_THREAD_MAX_COUNT_def size_t_of_int_def)
qed

section \<open>The active pool outside RUNNING, and its task limit\<close>

text \<open>
  C1. \<open>ActivePool::submitTask\<close> does not look at the state. On a pool that was
  never started it reads \<open>threads_[0]\<close> of an empty vector. On a pool whose destructor
  has set EXITING while its workers are still there, the task is given to worker 0,
  \<open>notEmpty_\<close> is notified, nothing is thrown, and the caller gets the pending future
  of its task instead of a fulfilled default.
\<close>

theorem active_submit_not_running:
  "pool_state (ThreadPool_ctor MODE_ACTIVE 0 :: nat ThreadPool) = STATE_INIT \<and>
   submitTask dflt quiet 9 (ThreadPool_ctor MODE_ACTIVE 0) =
     (Undefined, ThreadPool_ctor MODE_ACTIVE 0, []) \<and>
   pool_state (Active (fst (ActivePool_dtor_enter running3))) = STATE_EXITING \<and>
   submitTask dflt quiet 9 (Active (fst (ActivePool_dtor_enter running3))) =
     (Return (Pending 9),
      Active (running3\<lparr>state := STATE_EXITING,
        ActivePool.threads :=
          [Some ((ThreadWithDQ_ctor 0)\<lparr>publicTaskCount := 1, TaskQ1 := [9]\<rparr>),
           Some (ThreadWithDQ_ctor 1), Some (ThreadWithDQ_ctor 2)]\<rparr>),
      [Acquire PubLock, Release PubLock, NotifyAll NotEmpty])"
  by (simp add: submitTask_def quiet_def ThreadPool_ctor_def ActivePool_dtor_enter_def
      running3_eq active_eval)

text \<open>
  C9. \<open>setTaskMaxCount\<close> on an active pool changes nothing and writes nothing, in
  every state: after \<open>setTaskMaxCount(10)\<close> on a new pool the cap a submit compares
  against is still 500001, where the fixed and the cached pool hold 10.
\<close>

theorem active_setTaskMaxCount_ignored:
  "setTaskMaxCount n (Active p) = (Active p, []) \<and>
   pool_taskMaxCount (fst (setTaskMaxCount 10 (ThreadPool_ctor MODE_ACTIVE base))) = 500001 \<and>
   pool_taskMaxCount (fst (setTaskMaxCount 10 (ThreadPool_ctor MODE_FIXED base))) = 10 \<and>
   pool_taskMaxCount (fst (setTaskMaxCount 10 (ThreadPool_ctor MODE_CACHED base))) = 10"
  by (simp add: ActivePool_setTaskMaxCount_def ThreadPool_ctor_def ActivePool_ctor_def
      getTaskMaxCount_def ThreadWithDQ_DEFAULT_TASK_MAX_COUNT_def
      FixedPool_setTaskMaxCount_def FixedPool_ctor_def CachedPool_setTaskMaxCount_def
      CachedPool_ctor_def checkSetPermission_def)

section \<open>Further properties of the fixed and the cached pool\<close>

text \<open>
  X1. A \<open>submitTask\<close> on a fixed or a cached pool that is not RUNNING enqueues
  nothing, writes \<open>submitTask: PoolNotRunning\<close> and returns a future that already
  holds the default value.
\<close>

theorem fixed_cached_not_running:
  "(state p \<noteq> STATE_RUNNING \<longrightarrow>
      submitTask dflt env task (Fixed p) =
        (Return (Ready dflt), Fixed p, [Cerr ''submitTask: PoolNotRunning''])) \<and>
   (state c \<noteq> STATE_RUNNING \<longrightarrow>
      submitTask dflt env task (Cached c) =
        (Return (Ready dflt), Cached c, [Cerr ''submitTask: PoolNotRunning'']))"
  by (simp add: submitTask_def FixedPool_submitTask_def CachedPool_submitTask_def)

theorem fixed_cached_not_running_witness:
  "state (FixedPool_ctor 0 :: nat FixedPool) \<noteq> STATE_RUNNING \<and>
   submitTask (0::int) quiet 9 (Fixed (FixedPool_ctor 0 :: nat FixedPool)) =
     (Return (Ready 0), Fixed (FixedPool_ctor 0), [Cerr ''submitTask: PoolNotRunning'']) \<and>
   state (fst (CachedPool_dtor_enter cached_started)) \<noteq> STATE_RUNNING \<and>
   submitTask (0::int) quiet 9 (Cached (fst (CachedPool_dtor_enter cached_started))) =
     (Return (Ready 0), Cached (fst (CachedPool_dtor_enter cached_started)),
      [Cerr ''submitTask: PoolNotRunning''])"
proof -
  have a: "state (FixedPool_ctor 0 :: nat FixedPool) \<noteq> STATE_RUNNING"
    by (simp add: FixedPool_ctor_def)
  have b: "state (fst (CachedPool_dtor_enter cached_started)) \<noteq> STATE_RUNNING"
    by (simp add: CachedPool_dtor_enter_def)
  from fixed_cached_not_running
         [of "FixedPool_ctor 0 :: nat FixedPool" "0::int" quiet 9
             "fst (CachedPool_dtor_enter cached_started)"] a b
  show ?thesis by simp
qed

text \<open>
  X2. A \<open>submitTask\<close> of the cached pool that finds room, continuing from pool
  state \<open>s\<close>, starts exactly one thread when, with the new task counted, tasks
  outnumber idle threads and \<open>curThreadCount_\<close> is below \<open>maxThreadCount_\<close>; it
  then adds the new id and raises both counters by one. Otherwise it starts none and
  leaves them. A pool whose \<open>curThreadCount_\<close> is at most \<open>maxThreadCount_\<close> stays so.
\<close>

theorem CachedPool_submit_spawn:
  assumes "state c = STATE_RUNNING"
    and "find cached_has_room (wait_states ws c) = Some s"
  shows "\<exists>c' es. CachedPool_submitTask ws task c =
             (Return (), c', [WaitFor NotFull 1, NotifyAll NotEmpty] @ es) \<and>
           (if CachedPool.idleThreadCount s < CachedPool.taskCount s + 1 \<and>
               CachedPool.curThreadCount s < CachedPool.maxThreadCount s
            then es = [ThreadStart (threadIdBase s)] \<and>
                 CachedPool.threads c' = insert (threadIdBase s) (CachedPool.threads s) \<and>
                 CachedPool.curThreadCount c' = CachedPool.curThreadCount s + 1 \<and>
                 CachedPool.idleThreadCount c' = CachedPool.idleThreadCount s + 1
            else es = [] \<and>
                 CachedPool.threads c' = CachedPool.threads s \<and>
                 CachedPool.curThreadCount c' = CachedPool.curThreadCount s \<and>
                 CachedPool.idleThreadCount c' = CachedPool.idleThreadCount s) \<and>
           CachedPool.maxThreadCount c' = CachedPool.maxThreadCount s \<and>
           (CachedPool.curThreadCount s \<le> CachedPool.maxThreadCount s \<longrightarrow>
              CachedPool.curThreadCount c' \<le> CachedPool.maxThreadCount c')"
proof -
  let ?s' = "s\<lparr>CachedPool.taskQueue := CachedPool.taskQueue s @ [task],
                CachedPool.taskCount := CachedPool.taskCount s + 1\<rparr>"
  have run: "CachedPool_submitTask ws task c =
            (Return (), fst (spawn_if_needed ?s'),
             [WaitFor NotFull 1, NotifyAll NotEmpty] @ snd (spawn_if_needed ?s'))"
    using assms
    by (simp add: CachedPool_submitTask_def wait_for_pred_find split_beta Let_def)
  show ?thesis
  proof (cases "CachedPool.idleThreadCount s < CachedPool.taskCount s + 1 \<and>
               CachedPool.curThreadCount s < CachedPool.maxThreadCount s")
    case True
    then have "CachedPool.curThreadCount s + 1 \<le> CachedPool.maxThreadCount s"
      by (simp add: inc_le)
    with True run show ?thesis
      by (simp add: spawn_if_needed_def Let_def)
  next
    case False
    with run show ?thesis
      by (auto simp: spawn_if_needed_def Let_def)
  qed
qed

theorem CachedPool_submit_spawn_witness:
  "state cached_started = STATE_RUNNING \<and>
   find cached_has_room (wait_states [] cached_started) = Some cached_started \<and>
   (\<exists>c'. CachedPool_submitTask [] 5 cached_started =
            (Return (), c', [WaitFor NotFull 1, NotifyAll NotEmpty]) \<and>
          CachedPool.threads c' = {0} \<and> CachedPool.curThreadCount c' = 1) \<and>
   state (fst (snd (CachedPool_submitTask [] 5 cached_started))) = STATE_RUNNING \<and>
   CachedPool_submitTask [] 6 (fst (snd (CachedPool_submitTask [] 5 cached_started))) =
     (Return (), cached_grown, [WaitFor NotFull 1, NotifyAll NotEmpty, ThreadStart 1]) \<and>
   CachedPool.threads cached_grown = {0, 1} \<and> CachedPool.curThreadCount cached_grown = 2"
proof -
  have a: "state cached_started = STATE_RUNNING"
    by (simp add: cached_started_eq)
  have b: "find cached_has_room (wait_states [] cached_started) = Some cached_started"
    by (simp add: cached_started_eq cached_has_room_def CachedPool_ctor_def
        CachedPool_DEFAULT_TASK_MAX_COUNT_def)
  have e: "CachedPool_submitTask [] 5 cached_started =
     (Return (),
      cached_started\<lparr>CachedPool.taskCount := 1, CachedPool.taskQueue := [5]\<rparr>,
      [WaitFor NotFull 1, NotifyAll NotEmpty])"
    by (simp add: cached_started_eq cached_eval)
  have g: "CachedPool_submitTask [] 6 (fst (snd (CachedPool_submitTask [] 5 cached_started))) =
     (Return (), cached_grown, [WaitFor NotFull 1, NotifyAll NotEmpty, ThreadStart 1])"
    unfolding e by (simp add: cached_grown_eq cached_started_eq cached_eval insert_commute)
  have h: "CachedPool.threads cached_grown = {0, 1} \<and> CachedPool.curThreadCount cached_grown = 2"
    by (simp add: cached_grown_eq)
  from CachedPool_submit_spawn [OF a b, of 5] a b e g h
  show ?thesis by (simp add: cached_started_eq)
qed

text \<open>
  X3. \<open>setTaskMaxCount\<close> on a fixed or a cached pool stores its argument while the
  pool is in INIT; in any other state it writes its refusal and changes nothing.
\<close>

theorem fixed_cached_setTaskMaxCount:
  "setTaskMaxCount n (Fixed p) =
     (if state p = STATE_INIT then (Fixed (p\<lparr>FixedPool.taskMaxCount := n\<rparr>), [])
      else (Fixed p, [Cerr ''CANNOT call set-function now! Nothing changed.''])) \<and>
   setTaskMaxCount n (Cached c) =
     (if state c = STATE_INIT then (Cached (c\<lparr>CachedPool.taskMaxCount := n\<rparr>), [])
      else (Cached c, [Cerr ''CANNOT call set-function now! Nothing changed.'']))"
  by (simp add: FixedPool_setTaskMaxCount_def CachedPool_setTaskMaxCount_def
      checkSetPermission_def refused_def)

end
